theory Spec2Isabelle
  imports Main
begin

section \<open>The document tree of the host editor\<close>

text \<open>
  The module \<^verbatim>\<open>src/lib/api/normalize.js\<close> rewrites a Draft.js editor state. The
  parts of the host library it reads and writes are modelled as follows.

  \<^item> A JavaScript string is a \<^typ>\<open>string\<close>; its elements stand for the code units
    of the JavaScript string, and the code only compares strings for equality.
  \<^item> \<^verbatim>\<open>CharacterMetadata\<close> is a record of the style set (an \<^verbatim>\<open>OrderedSet\<close>,
    kept as the list of its members in insertion order) and the entity key
    (\<^verbatim>\<open>null\<close> is \<open>None\<close>).
  \<^item> \<^verbatim>\<open>ContentBlock\<close> is a record of the fields the module touches; its fields
    \<^verbatim>\<open>type\<close> and \<^verbatim>\<open>text\<close> are \<open>blockType\<close> and \<open>blockText\<close> here. The block key is
    the key under which the block is stored in the block map. The fields that the module
    neither reads nor writes (block data, selection, undo stack) are left out.
  \<^item> The block map is an \<^verbatim>\<open>OrderedMap\<close>: an association list in iteration order.
    An \<^verbatim>\<open>OrderedMap\<close> holds every key once; the theorems below carry that as the
    hypothesis \<open>distinct (map fst m)\<close>.
  \<^item> The entity registry is a finite map from entity keys to entity instances.
  \<^item> \<^verbatim>\<open>content.getEntity(key)\<close> throws on a key that is not registered; the throw
    is the value \<open>Inl UnknownEntityKey\<close>.
\<close>

record characterMetadata =
  style :: "string list"
  entity :: "string option"

record contentBlock =
  blockType :: string
  blockText :: string
  characterList :: "characterMetadata list"
  depth :: int

record draftEntity =
  entityType :: string

type_synonym blockMap = "(string \<times> contentBlock) list"

record contentState =
  blockMap :: blockMap
  entityMap :: "string \<rightharpoonup> draftEntity"

record editorState =
  currentContent :: contentState

record typeDescriptor =
  type :: string

datatype error = UnknownEntityKey

subsection \<open>Constants of \<^verbatim>\<open>../api/constants\<close>\<close>

text \<open>
  The module imports \<^verbatim>\<open>BLOCK_TYPE\<close> and \<^verbatim>\<open>ENTITY_TYPE\<close> from \<^verbatim>\<open>../api/constants\<close>, a
  file that is not among the sources at hand. The four constants it uses are given the
  values they have in Draft.js and Draftail; the proofs below use no more of them than
  that the unstyled and the atomic block type differ.
\<close>

text \<open>Modelled from the spec: \<^verbatim>\<open>BLOCK_TYPE.UNSTYLED\<close>, the plain block type that the spec
  calls \<^verbatim>\<open>unstyled\<close> and that is always allowed.\<close>

definition UNSTYLED :: string where
  "UNSTYLED = ''unstyled''"

text \<open>Modelled from the spec: \<^verbatim>\<open>BLOCK_TYPE.ATOMIC\<close>, the type of the blocks that stand
  for content that is not text, always allowed as a block type.\<close>

definition ATOMIC :: string where
  "ATOMIC = ''atomic''"

text \<open>Modelled from the spec: \<^verbatim>\<open>ENTITY_TYPE.IMAGE\<close>, the entity type of images, valid in
  atomic blocks only.\<close>

definition IMAGE :: string where
  "IMAGE = ''IMAGE''"

text \<open>Modelled from the spec: \<^verbatim>\<open>ENTITY_TYPE.HORIZONTAL_RULE\<close>, the entity type that is
  enabled by the horizontal-rule flag of the configuration.\<close>

definition HORIZONTAL_RULE :: string where
  "HORIZONTAL_RULE = ''HORIZONTAL_RULE''"

subsection \<open>Operations of the host library\<close>

text \<open>\<^verbatim>\<open>OrderedMap.set\<close>: an existing key keeps its place, a new key goes last.\<close>

fun orderedMapSet :: "'k \<Rightarrow> 'v \<Rightarrow> ('k \<times> 'v) list \<Rightarrow> ('k \<times> 'v) list" where
  "orderedMapSet k v [] = [(k, v)]"
| "orderedMapSet k v ((k', v') # m) =
     (if k' = k then (k, v) # m else (k', v') # orderedMapSet k v m)"

text \<open>\<^verbatim>\<open>m.merge(other)\<close>: every entry of \<open>other\<close>, in its order, is set in \<open>m\<close>.\<close>

definition merge :: "('k \<times> 'v) list \<Rightarrow> ('k \<times> 'v) list \<Rightarrow> ('k \<times> 'v) list" where
  "merge m other = foldl (\<lambda>acc (k, v). orderedMapSet k v acc) m other"

text \<open>\<^verbatim>\<open>m.filter(pred)\<close> and \<^verbatim>\<open>m.map(f)\<close> on the values of an ordered map.\<close>

definition filterValues :: "('v \<Rightarrow> bool) \<Rightarrow> ('k \<times> 'v) list \<Rightarrow> ('k \<times> 'v) list" where
  "filterValues p m = filter (\<lambda>(k, v). p v) m"

definition mapValues :: "('v \<Rightarrow> 'w) \<Rightarrow> ('k \<times> 'v) list \<Rightarrow> ('k \<times> 'w) list" where
  "mapValues f m = map (\<lambda>(k, v). (k, f v)) m"

text \<open>A filter whose predicate may throw: the first throw ends the iteration.\<close>

fun filterValuesE ::
  "('v \<Rightarrow> error + bool) \<Rightarrow> ('k \<times> 'v) list \<Rightarrow> error + ('k \<times> 'v) list" where
  "filterValuesE p [] = Inr []"
| "filterValuesE p ((k, v) # m) =
     (case p v of
        Inl e \<Rightarrow> Inl e
      | Inr keep \<Rightarrow>
          (case filterValuesE p m of
             Inl e \<Rightarrow> Inl e
           | Inr rest \<Rightarrow> Inr (if keep then (k, v) # rest else rest)))"

text \<open>A map whose function may throw.\<close>

fun mapValuesE ::
  "('v \<Rightarrow> error + 'w) \<Rightarrow> ('k \<times> 'v) list \<Rightarrow> error + ('k \<times> 'w) list" where
  "mapValuesE f [] = Inr []"
| "mapValuesE f ((k, v) # m) =
     (case f v of
        Inl e \<Rightarrow> Inl e
      | Inr w \<Rightarrow>
          (case mapValuesE f m of
             Inl e \<Rightarrow> Inl e
           | Inr rest \<Rightarrow> Inr ((k, w) # rest)))"

text \<open>
  The test \<^verbatim>\<open>if (entityKey)\<close>: \<^verbatim>\<open>null\<close> and the empty string are falsy, every other
  string is truthy.
\<close>

definition truthy :: "string option \<Rightarrow> bool" where
  "truthy entityKey = (case entityKey of None \<Rightarrow> False | Some k \<Rightarrow> k \<noteq> [])"

text \<open>\<^verbatim>\<open>content.getEntity(key)\<close>.\<close>

definition getEntity :: "contentState \<Rightarrow> string option \<Rightarrow> error + draftEntity" where
  "getEntity content entityKey =
     (case entityKey of
        None \<Rightarrow> Inl UnknownEntityKey
      | Some k \<Rightarrow>
          (case entityMap content k of
             None \<Rightarrow> Inl UnknownEntityKey
           | Some instance \<Rightarrow> Inr instance))"

text \<open>\<^verbatim>\<open>block.getEntityAt(offset)\<close>: \<^verbatim>\<open>null\<close> where the block has no such character.\<close>

definition getEntityAt :: "contentBlock \<Rightarrow> nat \<Rightarrow> string option" where
  "getEntityAt block offset =
     (if offset < length (characterList block)
      then entity (characterList block ! offset) else None)"

text \<open>\<^verbatim>\<open>CharacterMetadata.removeStyle\<close> and \<^verbatim>\<open>CharacterMetadata.applyEntity\<close>.\<close>

definition removeStyle :: "characterMetadata \<Rightarrow> string \<Rightarrow> characterMetadata" where
  "removeStyle record t = record\<lparr>style := removeAll t (style record)\<rparr>"

definition applyEntity :: "characterMetadata \<Rightarrow> string option \<Rightarrow> characterMetadata" where
  "applyEntity record entityKey = record\<lparr>entity := entityKey\<rparr>"

text \<open>\<^verbatim>\<open>EditorState.set(editorState, {currentContent: content.merge({blockMap: m})})\<close>.\<close>

definition setBlockMap :: "editorState \<Rightarrow> blockMap \<Rightarrow> editorState" where
  "setBlockMap editorState m =
     editorState\<lparr>currentContent := (currentContent editorState)\<lparr>blockMap := m\<rparr>\<rparr>"

section \<open>The five stages\<close>

subsection \<open>\<^verbatim>\<open>resetBlockDepth\<close>\<close>

definition resetBlockDepth :: "editorState \<Rightarrow> int \<Rightarrow> editorState" where
  "resetBlockDepth editorState maxListNesting =
     (let content = currentContent editorState;
          blockMap = blockMap content;
          changedBlocks =
            mapValues (\<lambda>block. block\<lparr>depth := maxListNesting\<rparr>)
              (filterValues (\<lambda>block. depth block > maxListNesting) blockMap)
      in if length changedBlocks \<noteq> 0
         then setBlockMap editorState (merge blockMap changedBlocks)
         else editorState)"

subsection \<open>\<^verbatim>\<open>resetBlockType\<close>\<close>

definition resetBlockType :: "editorState \<Rightarrow> string list \<Rightarrow> editorState" where
  "resetBlockType editorState enabledTypes =
     (let content = currentContent editorState;
          blockMap = blockMap content;
          changedBlocks =
            mapValues (\<lambda>block. block\<lparr>blockType := UNSTYLED\<rparr>)
              (filterValues (\<lambda>block. blockType block \<notin> set enabledTypes) blockMap)
      in if length changedBlocks \<noteq> 0
         then setBlockMap editorState (merge blockMap changedBlocks)
         else editorState)"

subsection \<open>\<^verbatim>\<open>filterInlineStyle\<close>\<close>

text \<open>
  The callback of \<^verbatim>\<open>block.getCharacterList().map\<close>. The flag \<^verbatim>\<open>altered\<close> of the
  enclosing block and the variable \<^verbatim>\<open>newChar\<close> are the state of the inner
  \<^verbatim>\<open>forEach\<close>: every style of the character that is not enabled raises the flag and
  is removed from \<^verbatim>\<open>newChar\<close>.
\<close>

definition filterStyleChar ::
  "string list \<Rightarrow> bool \<Rightarrow> characterMetadata \<Rightarrow> bool \<times> characterMetadata" where
  "filterStyleChar enabledTypes altered char =
     foldl (\<lambda>(altered, newChar) t. (True, removeStyle newChar t)) (altered, char)
       (filter (\<lambda>t. t \<notin> set enabledTypes) (style char))"

fun filterStyleChars ::
  "string list \<Rightarrow> bool \<Rightarrow> characterMetadata list \<Rightarrow> bool \<times> characterMetadata list" where
  "filterStyleChars enabledTypes altered [] = (altered, [])"
| "filterStyleChars enabledTypes altered (char # rest) =
     (let (altered, newChar) = filterStyleChar enabledTypes altered char;
          (altered, chars) = filterStyleChars enabledTypes altered rest
      in (altered, newChar # chars))"

definition filterStyleBlock :: "string list \<Rightarrow> contentBlock \<Rightarrow> contentBlock" where
  "filterStyleBlock enabledTypes block =
     (let (altered, chars) = filterStyleChars enabledTypes False (characterList block)
      in if altered then block\<lparr>characterList := chars\<rparr> else block)"

definition filterInlineStyle :: "editorState \<Rightarrow> string list \<Rightarrow> editorState" where
  "filterInlineStyle editorState enabledTypes =
     (let content = currentContent editorState;
          blockMap = blockMap content;
          blocks = mapValues (filterStyleBlock enabledTypes) blockMap
      in setBlockMap editorState (merge blockMap blocks))"

subsection \<open>\<^verbatim>\<open>resetAtomicBlocks\<close>\<close>

text \<open>The predicate of the last \<^verbatim>\<open>filter\<close>: does the entity of the block's first character
  have a type that is not enabled?\<close>

definition shouldReset :: "contentState \<Rightarrow> string list \<Rightarrow> contentBlock \<Rightarrow> error + bool" where
  "shouldReset content enabledTypes block =
     (let entityKey = getEntityAt block 0
      in if truthy entityKey
         then (case getEntity content entityKey of
                 Inl e \<Rightarrow> Inl e
               | Inr instance \<Rightarrow> Inr (entityType instance \<notin> set enabledTypes))
         else Inr False)"

definition resetAtomicBlocks :: "editorState \<Rightarrow> string list \<Rightarrow> error + editorState" where
  "resetAtomicBlocks editorState enabledTypes =
     (let content = currentContent editorState;
          blockMap = blockMap content;
          blocks = blockMap;
          normalisedBlocks =
            mapValues
              (\<lambda>block. block\<lparr>blockText := '' '',
                               characterList := take 1 (characterList block)\<rparr>)
              (filterValues
                 (\<lambda>block. blockType block = ATOMIC \<and> blockText block \<noteq> '' '') blocks);
          blocks = (if length normalisedBlocks \<noteq> 0
                    then merge blockMap normalisedBlocks else blocks)
      in case filterValuesE (shouldReset content enabledTypes)
                (filterValues (\<lambda>block. blockType block = ATOMIC) blocks) of
           Inl e \<Rightarrow> Inl e
         | Inr toReset \<Rightarrow>
             (let resetBlocks = mapValues (\<lambda>block. block\<lparr>blockType := UNSTYLED\<rparr>) toReset;
                  blocks = (if length resetBlocks \<noteq> 0
                            then merge blockMap resetBlocks else blocks)
              in Inr (setBlockMap editorState (merge blockMap blocks))))"

subsection \<open>\<^verbatim>\<open>filterEntityType\<close>\<close>

text \<open>
  The callback of \<^verbatim>\<open>block.getCharacterList().map\<close>, with the flag \<^verbatim>\<open>altered\<close> of the
  enclosing block passed through. A character whose entity key is falsy is returned as
  it is.
\<close>

definition filterEntityChar ::
  "contentState \<Rightarrow> string list \<Rightarrow> string \<Rightarrow> bool \<Rightarrow> characterMetadata \<Rightarrow>
     error + (bool \<times> characterMetadata)" where
  "filterEntityChar content enabledTypes bType altered char =
     (let entityKey = entity char
      in if truthy entityKey
         then (case getEntity content entityKey of
                 Inl e \<Rightarrow> Inl e
               | Inr instance \<Rightarrow>
                   (let entityType = entityType instance;
                        shouldFilter = entityType \<notin> set enabledTypes;
                        shouldFilterImage = (entityType = IMAGE \<and> bType \<noteq> ATOMIC)
                    in if shouldFilter \<or> shouldFilterImage
                       then Inr (True, applyEntity char None)
                       else Inr (altered, char)))
         else Inr (altered, char))"

fun filterEntityChars ::
  "contentState \<Rightarrow> string list \<Rightarrow> string \<Rightarrow> bool \<Rightarrow> characterMetadata list \<Rightarrow>
     error + (bool \<times> characterMetadata list)" where
  "filterEntityChars content enabledTypes bType altered [] = Inr (altered, [])"
| "filterEntityChars content enabledTypes bType altered (char # rest) =
     (case filterEntityChar content enabledTypes bType altered char of
        Inl e \<Rightarrow> Inl e
      | Inr (altered, newChar) \<Rightarrow>
          (case filterEntityChars content enabledTypes bType altered rest of
             Inl e \<Rightarrow> Inl e
           | Inr (altered, chars) \<Rightarrow> Inr (altered, newChar # chars)))"

definition filterEntityBlock ::
  "contentState \<Rightarrow> string list \<Rightarrow> contentBlock \<Rightarrow> error + contentBlock" where
  "filterEntityBlock content enabledTypes block =
     (case filterEntityChars content enabledTypes (blockType block) False
             (characterList block) of
        Inl e \<Rightarrow> Inl e
      | Inr (altered, chars) \<Rightarrow>
          Inr (if altered then block\<lparr>characterList := chars\<rparr> else block))"

definition filterEntityType :: "editorState \<Rightarrow> string list \<Rightarrow> error + editorState" where
  "filterEntityType editorState enabledTypes =
     (let content = currentContent editorState;
          blockMap = blockMap content
      in case mapValuesE (filterEntityBlock content enabledTypes) blockMap of
           Inl e \<Rightarrow> Inl e
         | Inr blocks \<Rightarrow> Inr (setBlockMap editorState (merge blockMap blocks)))"

section \<open>The pipeline\<close>

definition filterEditorState ::
  "editorState \<Rightarrow> int \<Rightarrow> bool \<Rightarrow> typeDescriptor list \<Rightarrow> typeDescriptor list \<Rightarrow>
     typeDescriptor list \<Rightarrow> error + editorState" where
  "filterEditorState editorState maxListNesting enableHorizontalRule blockTypes
       inlineStyles entityTypes =
     (let nextEditorState = editorState;
          enabledBlockTypes = map type blockTypes @ [UNSTYLED, ATOMIC];
          enabledInlineStyles = map type inlineStyles;
          enabledEntityTypes = map type entityTypes;
          enabledEntityTypes =
            (if enableHorizontalRule then enabledEntityTypes @ [HORIZONTAL_RULE]
             else enabledEntityTypes);
          nextEditorState = resetBlockDepth nextEditorState maxListNesting;
          nextEditorState = resetBlockType nextEditorState enabledBlockTypes;
          nextEditorState = filterInlineStyle nextEditorState enabledInlineStyles
      in case resetAtomicBlocks nextEditorState enabledEntityTypes of
           Inl e \<Rightarrow> Inl e
         | Inr nextEditorState \<Rightarrow> filterEntityType nextEditorState enabledEntityTypes)"

section \<open>What each stage does to one block\<close>

text \<open>
  Every stage selects blocks of the block map, rewrites them and merges them back under
  their keys. Over a block map that holds every key once, the result is the block map
  with one function applied to every block. This section names these functions; the
  lemmas of the next sections prove, stage by stage, that the code above computes them.
\<close>

abbreviation getBlockMap :: "editorState \<Rightarrow> blockMap" where
  "getBlockMap s \<equiv> blockMap (currentContent s)"

text \<open>The entries that a choice function \<open>h\<close> replaces, and the value it leaves in place.\<close>

fun replacements :: "('v \<Rightarrow> 'v option) \<Rightarrow> ('k \<times> 'v) list \<Rightarrow> ('k \<times> 'v) list" where
  "replacements h [] = []"
| "replacements h ((k, v) # m) =
     (case h v of None \<Rightarrow> replacements h m | Some w \<Rightarrow> (k, w) # replacements h m)"

definition replaced :: "('v \<Rightarrow> 'v option) \<Rightarrow> 'v \<Rightarrow> 'v" where
  "replaced h = (\<lambda>v. case h v of None \<Rightarrow> v | Some w \<Rightarrow> w)"

text \<open>\<^verbatim>\<open>resetBlockDepth\<close> on one block.\<close>

definition clampDepth :: "int \<Rightarrow> contentBlock \<Rightarrow> contentBlock" where
  "clampDepth maxListNesting block =
     (if depth block > maxListNesting then block\<lparr>depth := maxListNesting\<rparr> else block)"

text \<open>\<^verbatim>\<open>resetBlockType\<close> on one block.\<close>

definition demoteType :: "string list \<Rightarrow> contentBlock \<Rightarrow> contentBlock" where
  "demoteType enabledTypes block =
     (if blockType block \<notin> set enabledTypes then block\<lparr>blockType := UNSTYLED\<rparr> else block)"

text \<open>\<^verbatim>\<open>filterInlineStyle\<close> on one character and on one block.\<close>

definition keepStyles :: "string list \<Rightarrow> characterMetadata \<Rightarrow> characterMetadata" where
  "keepStyles enabledTypes char =
     char\<lparr>style := filter (\<lambda>t. t \<in> set enabledTypes) (style char)\<rparr>"

definition keepStylesBlock :: "string list \<Rightarrow> contentBlock \<Rightarrow> contentBlock" where
  "keepStylesBlock enabledTypes block =
     block\<lparr>characterList := map (keepStyles enabledTypes) (characterList block)\<rparr>"

text \<open>
  \<^verbatim>\<open>resetAtomicBlocks\<close> on one block. The text normalisation is \<open>normaliseAtomic\<close>; a
  block is \<open>demoted\<close> when it is atomic and the entity of its first character, after
  normalisation, has a type that is not enabled. The code merges the demoted blocks into
  the block map it was given, not into the normalised one: as soon as one block of the
  document is demoted (\<open>anyDemoted\<close>), every block that is not demoted comes out as it
  went in.
\<close>

definition normaliseAtomic :: "contentBlock \<Rightarrow> contentBlock" where
  "normaliseAtomic block =
     (if blockType block = ATOMIC \<and> blockText block \<noteq> '' ''
      then block\<lparr>blockText := '' '', characterList := take 1 (characterList block)\<rparr>
      else block)"

definition demoted :: "contentState \<Rightarrow> string list \<Rightarrow> contentBlock \<Rightarrow> bool" where
  "demoted content enabledTypes block =
     (blockType block = ATOMIC \<and>
      shouldReset content enabledTypes (normaliseAtomic block) = Inr True)"

definition atomicResult ::
  "bool \<Rightarrow> contentState \<Rightarrow> string list \<Rightarrow> contentBlock \<Rightarrow> contentBlock" where
  "atomicResult anyDemoted content enabledTypes block =
     (if anyDemoted
      then (if demoted content enabledTypes block
            then (normaliseAtomic block)\<lparr>blockType := UNSTYLED\<rparr> else block)
      else normaliseAtomic block)"

text \<open>
  \<^verbatim>\<open>filterEntityType\<close> on one character and on one block. An entity key is \<open>resolved\<close>
  when the code can look it up: it is falsy, or it is registered.
\<close>

definition clearEntity ::
  "contentState \<Rightarrow> string list \<Rightarrow> string \<Rightarrow> characterMetadata \<Rightarrow> characterMetadata" where
  "clearEntity content enabledTypes bType char =
     (case getEntity content (entity char) of
        Inl e \<Rightarrow> char
      | Inr instance \<Rightarrow>
          if truthy (entity char) \<and>
             (entityType instance \<notin> set enabledTypes \<or>
              (entityType instance = IMAGE \<and> bType \<noteq> ATOMIC))
          then char\<lparr>entity := None\<rparr> else char)"

definition clearEntities :: "contentState \<Rightarrow> string list \<Rightarrow> contentBlock \<Rightarrow> contentBlock" where
  "clearEntities content enabledTypes block =
     block\<lparr>characterList :=
       map (clearEntity content enabledTypes (blockType block)) (characterList block)\<rparr>"

definition resolved :: "contentState \<Rightarrow> string option \<Rightarrow> bool" where
  "resolved content entityKey =
     (truthy entityKey \<longrightarrow>
      (case getEntity content entityKey of Inl e \<Rightarrow> False | Inr instance \<Rightarrow> True))"

text \<open>The five stages in the order of \<^verbatim>\<open>filterEditorState\<close>.\<close>

definition pipelineBlock ::
  "bool \<Rightarrow> contentState \<Rightarrow> int \<Rightarrow> string list \<Rightarrow> string list \<Rightarrow> string list \<Rightarrow>
     contentBlock \<Rightarrow> contentBlock" where
  "pipelineBlock anyDemoted content maxListNesting enabledBlockTypes enabledInlineStyles
       enabledEntityTypes block =
     clearEntities content enabledEntityTypes
       (atomicResult anyDemoted content enabledEntityTypes
          (keepStylesBlock enabledInlineStyles
             (demoteType enabledBlockTypes (clampDepth maxListNesting block))))"

section \<open>The properties of a sanitised snapshot\<close>

text \<open>
  The properties that the spec lists for the output of the pipeline, as predicates on a
  snapshot. A character carries an entity reference when its entity key is truthy. The
  effective set of entity types is the configured one, with the horizontal-rule type
  added exactly when the flag is set. An atomic block has its shape when its text is the
  placeholder character (one space) and it has one character-metadata entry.
\<close>

definition depthBound :: "int \<Rightarrow> editorState \<Rightarrow> bool" where
  "depthBound maxListNesting s =
     (\<forall>(k, block) \<in> set (getBlockMap s). depth block \<le> maxListNesting)"

definition typeClosure :: "typeDescriptor list \<Rightarrow> editorState \<Rightarrow> bool" where
  "typeClosure blockTypes s =
     (\<forall>(k, block) \<in> set (getBlockMap s).
        blockType block \<in> set (map type blockTypes) \<union> {UNSTYLED, ATOMIC})"

definition styleClosure :: "typeDescriptor list \<Rightarrow> editorState \<Rightarrow> bool" where
  "styleClosure inlineStyles s =
     (\<forall>(k, block) \<in> set (getBlockMap s). \<forall>char \<in> set (characterList block).
        set (style char) \<subseteq> set (map type inlineStyles))"

definition effectiveEntityTypes :: "bool \<Rightarrow> typeDescriptor list \<Rightarrow> string set" where
  "effectiveEntityTypes enableHorizontalRule entityTypes =
     set (map type entityTypes) \<union> (if enableHorizontalRule then {HORIZONTAL_RULE} else {})"

definition entityClosure :: "bool \<Rightarrow> typeDescriptor list \<Rightarrow> editorState \<Rightarrow> bool" where
  "entityClosure enableHorizontalRule entityTypes s =
     (\<forall>(k, block) \<in> set (getBlockMap s). \<forall>char \<in> set (characterList block).
        truthy (entity char) \<longrightarrow>
        (case getEntity (currentContent s) (entity char) of
           Inl e \<Rightarrow> False
         | Inr instance \<Rightarrow>
             entityType instance \<in> effectiveEntityTypes enableHorizontalRule entityTypes))"

definition imageContainment :: "editorState \<Rightarrow> bool" where
  "imageContainment s =
     (\<forall>(k, block) \<in> set (getBlockMap s). blockType block \<noteq> ATOMIC \<longrightarrow>
        (\<forall>char \<in> set (characterList block). truthy (entity char) \<longrightarrow>
           (case getEntity (currentContent s) (entity char) of
              Inl e \<Rightarrow> True
            | Inr instance \<Rightarrow> entityType instance \<noteq> IMAGE)))"

definition atomicShape :: "editorState \<Rightarrow> bool" where
  "atomicShape s =
     (\<forall>(k, block) \<in> set (getBlockMap s). blockType block = ATOMIC \<longrightarrow>
        blockText block = '' '' \<and> length (characterList block) = 1)"

text \<open>
  Three conditions on a snapshot that comes in. \<open>entitiesResolved\<close>: every entity key
  that a character carries is falsy or registered, so that no lookup throws.
  \<open>charactersMatchText\<close>: every block has one character-metadata entry per position of
  its text. \<open>noDemotion\<close>: no atomic block has a first character whose entity has a type
  outside the effective set, so that \<^verbatim>\<open>resetAtomicBlocks\<close> resets no block to the
  unstyled type.
\<close>

definition entitiesResolved :: "editorState \<Rightarrow> bool" where
  "entitiesResolved s =
     (\<forall>(k, block) \<in> set (getBlockMap s). \<forall>char \<in> set (characterList block).
        resolved (currentContent s) (entity char))"

definition charactersMatchText :: "editorState \<Rightarrow> bool" where
  "charactersMatchText s =
     (\<forall>(k, block) \<in> set (getBlockMap s).
        length (characterList block) = length (blockText block))"

definition noDemotion :: "bool \<Rightarrow> typeDescriptor list \<Rightarrow> editorState \<Rightarrow> bool" where
  "noDemotion enableHorizontalRule entityTypes s =
     (\<forall>(k, block) \<in> set (getBlockMap s). blockType block = ATOMIC \<longrightarrow>
        (case characterList block of
           [] \<Rightarrow> True
         | char # rest \<Rightarrow>
             truthy (entity char) \<longrightarrow>
             (case getEntity (currentContent s) (entity char) of
                Inl e \<Rightarrow> True
              | Inr instance \<Rightarrow>
                  entityType instance \<in> effectiveEntityTypes enableHorizontalRule entityTypes)))"

section \<open>Example snapshots\<close>

text \<open>
  A registry with an image, a link and an embed, and a document with a heading that
  carries a link, a deeply nested list item with an inline image, an atomic image block
  and an atomic embed block. \<open>exampleResult\<close> is what the pipeline returns for it when
  list items, bold, images and links are enabled and the nesting limit is 1.
\<close>

definition exampleEntities :: "string \<rightharpoonup> draftEntity" where
  "exampleEntities =
     [''1'' \<mapsto> \<lparr>entityType = IMAGE\<rparr>, ''2'' \<mapsto> \<lparr>entityType = ''LINK''\<rparr>,
      ''3'' \<mapsto> \<lparr>entityType = ''EMBED''\<rparr>]"

definition exampleBlocks :: blockMap where
  "exampleBlocks =
     [(''a'', \<lparr>blockType = ''header-one'', blockText = ''Hi'',
              characterList = [\<lparr>style = [''BOLD'', ''ITALIC''], entity = None\<rparr>,
                               \<lparr>style = [], entity = Some ''2''\<rparr>],
              depth = 0\<rparr>),
      (''b'', \<lparr>blockType = ''unordered-list-item'', blockText = ''x'',
              characterList = [\<lparr>style = [], entity = Some ''1''\<rparr>],
              depth = 5\<rparr>),
      (''c'', \<lparr>blockType = ATOMIC, blockText = '' '',
              characterList = [\<lparr>style = [], entity = Some ''1''\<rparr>],
              depth = 0\<rparr>),
      (''d'', \<lparr>blockType = ATOMIC, blockText = '' '',
              characterList = [\<lparr>style = [], entity = Some ''3''\<rparr>],
              depth = 0\<rparr>)]"

definition exampleState :: editorState where
  "exampleState =
     \<lparr>currentContent = \<lparr>blockMap = exampleBlocks, entityMap = exampleEntities\<rparr>\<rparr>"

definition exampleResultBlocks :: blockMap where
  "exampleResultBlocks =
     [(''a'', \<lparr>blockType = UNSTYLED, blockText = ''Hi'',
              characterList = [\<lparr>style = [''BOLD''], entity = None\<rparr>,
                               \<lparr>style = [], entity = Some ''2''\<rparr>],
              depth = 0\<rparr>),
      (''b'', \<lparr>blockType = ''unordered-list-item'', blockText = ''x'',
              characterList = [\<lparr>style = [], entity = None\<rparr>],
              depth = 1\<rparr>),
      (''c'', \<lparr>blockType = ATOMIC, blockText = '' '',
              characterList = [\<lparr>style = [], entity = Some ''1''\<rparr>],
              depth = 0\<rparr>),
      (''d'', \<lparr>blockType = UNSTYLED, blockText = '' '',
              characterList = [\<lparr>style = [], entity = None\<rparr>],
              depth = 0\<rparr>)]"

definition exampleResult :: editorState where
  "exampleResult =
     \<lparr>currentContent = \<lparr>blockMap = exampleResultBlocks, entityMap = exampleEntities\<rparr>\<rparr>"

definition exampleBlockTypes :: "typeDescriptor list" where
  "exampleBlockTypes = [\<lparr>type = ''unordered-list-item''\<rparr>]"

definition exampleInlineStyles :: "typeDescriptor list" where
  "exampleInlineStyles = [\<lparr>type = ''BOLD''\<rparr>]"

definition exampleEntityTypes :: "typeDescriptor list" where
  "exampleEntityTypes = [\<lparr>type = IMAGE\<rparr>, \<lparr>type = ''LINK''\<rparr>]"

text \<open>
  The block maps that \<^verbatim>\<open>filterEntityType\<close> and \<^verbatim>\<open>resetAtomicBlocks\<close> return for the
  example document when images and links are enabled.
\<close>

definition exampleEntityFiltered :: blockMap where
  "exampleEntityFiltered =
     [(''a'', \<lparr>blockType = ''header-one'', blockText = ''Hi'',
              characterList = [\<lparr>style = [''BOLD'', ''ITALIC''], entity = None\<rparr>,
                               \<lparr>style = [], entity = Some ''2''\<rparr>],
              depth = 0\<rparr>),
      (''b'', \<lparr>blockType = ''unordered-list-item'', blockText = ''x'',
              characterList = [\<lparr>style = [], entity = None\<rparr>],
              depth = 5\<rparr>),
      (''c'', \<lparr>blockType = ATOMIC, blockText = '' '',
              characterList = [\<lparr>style = [], entity = Some ''1''\<rparr>],
              depth = 0\<rparr>),
      (''d'', \<lparr>blockType = ATOMIC, blockText = '' '',
              characterList = [\<lparr>style = [], entity = None\<rparr>],
              depth = 0\<rparr>)]"

definition exampleAtomicReset :: blockMap where
  "exampleAtomicReset =
     [(''a'', \<lparr>blockType = ''header-one'', blockText = ''Hi'',
              characterList = [\<lparr>style = [''BOLD'', ''ITALIC''], entity = None\<rparr>,
                               \<lparr>style = [], entity = Some ''2''\<rparr>],
              depth = 0\<rparr>),
      (''b'', \<lparr>blockType = ''unordered-list-item'', blockText = ''x'',
              characterList = [\<lparr>style = [], entity = Some ''1''\<rparr>],
              depth = 5\<rparr>),
      (''c'', \<lparr>blockType = ATOMIC, blockText = '' '',
              characterList = [\<lparr>style = [], entity = Some ''1''\<rparr>],
              depth = 0\<rparr>),
      (''d'', \<lparr>blockType = UNSTYLED, blockText = '' '',
              characterList = [\<lparr>style = [], entity = Some ''3''\<rparr>],
              depth = 0\<rparr>)]"

text \<open>
  Two documents on which \<^verbatim>\<open>resetAtomicBlocks\<close> loses its text normalisation. In
  \<open>bugBlocks\<close> the atomic block \<open>a\<close> holds an image and two characters of text, and the
  atomic block \<open>b\<close> holds an embed; only images are enabled (\<open>bugEntityTypes\<close>).
  \<open>bugOnce\<close> and \<open>bugTwice\<close> are the block maps after one and after two runs of the
  pipeline, \<open>loneBlocks\<close> is block \<open>a\<close> alone. In \<open>emptyAtomicBlocks\<close> block \<open>a\<close> is
  an atomic block with empty text; \<open>emptyAtomicResult\<close> is what \<^verbatim>\<open>resetAtomicBlocks\<close>
  returns for it, and \<open>emptyNormalised\<close> what it returns for block \<open>a\<close> alone.
\<close>

definition bugBlocks :: blockMap where
  "bugBlocks =
     [(''a'', \<lparr>blockType = ATOMIC, blockText = ''ab'',
              characterList = [\<lparr>style = [], entity = Some ''1''\<rparr>,
                               \<lparr>style = [], entity = None\<rparr>],
              depth = 0\<rparr>),
      (''b'', \<lparr>blockType = ATOMIC, blockText = '' '',
              characterList = [\<lparr>style = [], entity = Some ''3''\<rparr>],
              depth = 0\<rparr>)]"

definition bugState :: editorState where
  "bugState = \<lparr>currentContent = \<lparr>blockMap = bugBlocks, entityMap = exampleEntities\<rparr>\<rparr>"

definition bugEntityTypes :: "typeDescriptor list" where
  "bugEntityTypes = [\<lparr>type = IMAGE\<rparr>]"

definition bugOnce :: blockMap where
  "bugOnce =
     [(''a'', \<lparr>blockType = ATOMIC, blockText = ''ab'',
              characterList = [\<lparr>style = [], entity = Some ''1''\<rparr>,
                               \<lparr>style = [], entity = None\<rparr>],
              depth = 0\<rparr>),
      (''b'', \<lparr>blockType = UNSTYLED, blockText = '' '',
              characterList = [\<lparr>style = [], entity = None\<rparr>],
              depth = 0\<rparr>)]"

definition bugTwice :: blockMap where
  "bugTwice =
     [(''a'', \<lparr>blockType = ATOMIC, blockText = '' '',
              characterList = [\<lparr>style = [], entity = Some ''1''\<rparr>],
              depth = 0\<rparr>),
      (''b'', \<lparr>blockType = UNSTYLED, blockText = '' '',
              characterList = [\<lparr>style = [], entity = None\<rparr>],
              depth = 0\<rparr>)]"

definition loneBlocks :: blockMap where
  "loneBlocks = take 1 bugBlocks"

definition emptyAtomicBlocks :: blockMap where
  "emptyAtomicBlocks =
     [(''a'', \<lparr>blockType = ATOMIC, blockText = '''', characterList = [], depth = 0\<rparr>),
      (''b'', \<lparr>blockType = ATOMIC, blockText = '' '',
              characterList = [\<lparr>style = [], entity = Some ''3''\<rparr>],
              depth = 0\<rparr>)]"

definition emptyAtomicState :: editorState where
  "emptyAtomicState =
     \<lparr>currentContent = \<lparr>blockMap = emptyAtomicBlocks, entityMap = exampleEntities\<rparr>\<rparr>"

definition emptyAtomicResult :: blockMap where
  "emptyAtomicResult =
     [(''a'', \<lparr>blockType = ATOMIC, blockText = '''', characterList = [], depth = 0\<rparr>),
      (''b'', \<lparr>blockType = UNSTYLED, blockText = '' '',
              characterList = [\<lparr>style = [], entity = Some ''3''\<rparr>],
              depth = 0\<rparr>)]"

definition emptyNormalised :: blockMap where
  "emptyNormalised =
     [(''a'', \<lparr>blockType = ATOMIC, blockText = '' '', characterList = [], depth = 0\<rparr>)]"

section \<open>The stages, block by block\<close>

subsection \<open>Merging rewritten blocks\<close>

text \<open>
  Merging entries that were chosen from a block map back into that block map, under
  their keys, replaces each chosen entry in place, provided the block map holds every
  key once.
\<close>

lemma orderedMapSet_middle:
  "k \<notin> fst ` set pre \<Longrightarrow> orderedMapSet k w (pre @ (k, v) # m) = pre @ (k, w) # m"
  by (induction pre) auto

lemma merge_Nil [simp]: "merge m [] = m"
  by (simp add: merge_def)

lemma merge_Cons [simp]: "merge m ((k, v) # other) = merge (orderedMapSet k v m) other"
  by (simp add: merge_def)

lemma mapValues_simps [simp]:
  "mapValues f [] = []"
  "mapValues f ((k, v) # m) = (k, f v) # mapValues f m"
  by (simp_all add: mapValues_def)

lemma filterValues_simps [simp]:
  "filterValues p [] = []"
  "filterValues p ((k, v) # m) = (if p v then (k, v) # filterValues p m else filterValues p m)"
  by (simp_all add: filterValues_def)

lemma merge_replacements_append:
  "distinct (map fst (pre @ m)) \<Longrightarrow>
     merge (pre @ m) (replacements h m) = pre @ mapValues (replaced h) m"
proof (induction m arbitrary: pre)
  case Nil
  then show ?case by simp
next
  case (Cons kv m)
  obtain k v where kv: "kv = (k, v)" by (cases kv)
  have fresh: "k \<notin> fst ` set pre"
    using Cons.prems by (auto simp: kv)
  show ?case
  proof (cases "h v")
    case None
    have "distinct (map fst ((pre @ [(k, v)]) @ m))"
      using Cons.prems by (simp add: kv)
    from Cons.IH [OF this] None show ?thesis
      by (simp add: kv replaced_def)
  next
    case (Some w)
    have d: "distinct (map fst ((pre @ [(k, w)]) @ m))"
      using Cons.prems by (simp add: kv)
    have "merge (pre @ kv # m) (replacements h (kv # m)) =
            merge ((pre @ [(k, w)]) @ m) (replacements h m)"
      using Some fresh by (simp add: kv orderedMapSet_middle)
    also have "\<dots> = (pre @ [(k, w)]) @ mapValues (replaced h) m"
      by (rule Cons.IH [OF d])
    finally show ?thesis
      using Some by (simp add: kv replaced_def)
  qed
qed

lemma merge_replacements:
  "distinct (map fst m) \<Longrightarrow> merge m (replacements h m) = mapValues (replaced h) m"
  using merge_replacements_append [of "[]" m h] by simp

lemma changed_as_replacements0:
  "mapValues f (filterValues p m) =
     replacements (\<lambda>v. if p v then Some (f v) else None) m"
  by (induction m) auto

lemma mapValues_as_replacements:
  "mapValues f m = replacements (\<lambda>v. Some (f v)) m"
  by (induction m) auto

lemma replaced_if [simp]:
  "replaced (\<lambda>v. if p v then Some (f v) else None) = (\<lambda>v. if p v then f v else v)"
  by (auto simp: replaced_def fun_eq_iff)

lemma replaced_Some [simp]: "replaced (\<lambda>v. Some (f v)) = f"
  by (auto simp: replaced_def fun_eq_iff)

lemma merge_changed:
  "distinct (map fst m) \<Longrightarrow>
     merge m (mapValues f (filterValues p m)) = mapValues (\<lambda>v. if p v then f v else v) m"
  by (simp add: changed_as_replacements0 merge_replacements)

lemma merge_all:
  "distinct (map fst m) \<Longrightarrow> merge m (mapValues f m) = mapValues f m"
  using merge_replacements [of m "\<lambda>v. Some (f v)"]
  by (simp add: mapValues_as_replacements [symmetric])

lemma map_fst_mapValues [simp]: "map fst (mapValues f m) = map fst m"
  by (induction m) auto

lemma setBlockMap_same [simp]: "setBlockMap s (blockMap (currentContent s)) = s"
  by (simp add: setBlockMap_def)

lemma changed_Nil:
  "mapValues f (filterValues p m) = [] \<Longrightarrow> mapValues (\<lambda>v. if p v then f v else v) m = m"
  by (induction m) (auto split: if_splits)

subsection \<open>Depth and type\<close>

lemma resetBlockDepth_eq:
  assumes "distinct (map fst (blockMap (currentContent s)))"
  shows "resetBlockDepth s mx =
    setBlockMap s (mapValues (\<lambda>b. if depth b > mx then b\<lparr>depth := mx\<rparr> else b)
       (blockMap (currentContent s)))"
  using assms by (auto simp: resetBlockDepth_def Let_def merge_changed changed_Nil)

lemma resetBlockType_eq:
  assumes "distinct (map fst (blockMap (currentContent s)))"
  shows "resetBlockType s en =
    setBlockMap s (mapValues (\<lambda>b. if blockType b \<notin> set en then b\<lparr>blockType := UNSTYLED\<rparr> else b)
       (blockMap (currentContent s)))"
  using assms by (auto simp: resetBlockType_def Let_def merge_changed changed_Nil)

subsection \<open>Inline styles\<close>

lemma removeStyle_foldl:
  "foldl (\<lambda>(altered, newChar) t. (True, removeStyle newChar t)) (a, c) ts =
     (a \<or> ts \<noteq> [], c\<lparr>style := filter (\<lambda>t. t \<notin> set ts) (style c)\<rparr>)"
proof (induction ts arbitrary: a c)
  case Nil
  show ?case by simp
next
  case (Cons t ts)
  have step: "filter (\<lambda>u. u \<notin> set ts) (removeAll t (style c)) =
          filter (\<lambda>u. u \<noteq> t \<and> u \<notin> set ts) (style c)"
    by (auto simp: removeAll_filter_not_eq intro: filter_cong)
  show ?case
    unfolding foldl_Cons case_prod_conv Cons.IH
    by (simp add: removeStyle_def step)
qed

lemma filterStyleChar_eq:
  "filterStyleChar en a c = (a \<or> \<not> set (style c) \<subseteq> set en, keepStyles en c)"
proof -
  have "filter (\<lambda>t. t \<notin> set (filter (\<lambda>t. t \<notin> set en) (style c))) (style c) =
          filter (\<lambda>t. t \<in> set en) (style c)"
    by (rule filter_cong) auto
  moreover have "(filter (\<lambda>t. t \<notin> set en) (style c) \<noteq> []) = (\<not> set (style c) \<subseteq> set en)"
    by (auto simp: filter_empty_conv)
  ultimately show ?thesis
    by (simp add: filterStyleChar_def removeStyle_foldl keepStyles_def)
qed

lemma filterStyleChars_eq:
  "filterStyleChars en a cs =
     (a \<or> (\<exists>c \<in> set cs. \<not> set (style c) \<subseteq> set en), map (keepStyles en) cs)"
  by (induction cs arbitrary: a) (auto simp: filterStyleChar_eq)

lemma keepStyles_id: "set (style c) \<subseteq> set en \<Longrightarrow> keepStyles en c = c"
  by (simp add: keepStyles_def filter_id_conv subset_iff)

lemma filterStyleBlock_eq: "filterStyleBlock en b = keepStylesBlock en b"
proof (cases "\<exists>c \<in> set (characterList b). \<not> set (style c) \<subseteq> set en")
  case True
  then show ?thesis
    by (simp add: filterStyleBlock_def filterStyleChars_eq keepStylesBlock_def)
next
  case False
  then have "map (keepStyles en) (characterList b) = characterList b"
    by (simp add: keepStyles_id map_idI)
  with False show ?thesis
    by (simp add: filterStyleBlock_def filterStyleChars_eq keepStylesBlock_def)
qed

lemma filterInlineStyle_eq:
  assumes "distinct (map fst (blockMap (currentContent s)))"
  shows "filterInlineStyle s en =
    setBlockMap s (mapValues (keepStylesBlock en) (blockMap (currentContent s)))"
proof -
  have "filterStyleBlock en = keepStylesBlock en"
    by (simp add: fun_eq_iff filterStyleBlock_eq)
  then show ?thesis
    using assms by (simp add: filterInlineStyle_def Let_def merge_all)
qed

subsection \<open>Atomic blocks\<close>

text \<open>
  When \<^verbatim>\<open>resetAtomicBlocks\<close> returns, every block went through \<open>atomicResult\<close>: if no block
  is demoted, every block is normalised; if some block is demoted, the demoted blocks are
  normalised and reset to the unstyled type, and every other block is returned as it came
  in, normalised or not.
\<close>

lemma filterValuesE_Inr:
  "filterValuesE p m = Inr r \<Longrightarrow> r = filterValues (\<lambda>v. p v = Inr True) m"
  by (induction m arbitrary: r) (auto split: sum.splits if_splits)

lemma reset_as_replacements:
  "mapValues f (filterValues q (filterValues p (mapValues g m))) =
     replacements (\<lambda>v. if p (g v) \<and> q (g v) then Some (f (g v)) else None) m"
  by (induction m) auto

lemma replacements_Nil_iff:
  "(replacements h m = []) = (\<forall>(k, v) \<in> set m. h v = None)"
  by (induction m) (auto split: option.splits)

lemma merge_changed_if:
  "distinct (map fst m) \<Longrightarrow>
     (if length (mapValues f (filterValues p m)) \<noteq> 0
      then merge m (mapValues f (filterValues p m)) else m) =
     mapValues (\<lambda>v. if p v then f v else v) m"
  by (auto simp: merge_changed changed_Nil)

lemma normaliseAtomic_fun:
  "(\<lambda>v. if blockType v = ATOMIC \<and> blockText v \<noteq> '' ''
        then v\<lparr>blockText := '' '', characterList := take 1 (characterList v)\<rparr> else v) =
   normaliseAtomic"
  by (simp add: fun_eq_iff normaliseAtomic_def)

lemma blockType_normaliseAtomic [simp]: "blockType (normaliseAtomic b) = blockType b"
  by (simp add: normaliseAtomic_def)

lemma resetAtomicBlocks_eq:
  assumes d: "distinct (map fst (blockMap (currentContent s)))"
    and r: "resetAtomicBlocks s en = Inr s'"
  shows "s' = setBlockMap s
           (mapValues
              (atomicResult (\<exists>(k, b) \<in> set (blockMap (currentContent s)).
                               demoted (currentContent s) en b)
                 (currentContent s) en)
              (blockMap (currentContent s)))"
proof -
  define c where "c = currentContent s"
  define m where "m = blockMap c"
  define h where "h = (\<lambda>v. if demoted c en v
                            then Some ((normaliseAtomic v)\<lparr>blockType := UNSTYLED\<rparr>) else None)"
  have dm: "distinct (map fst m)" using d by (simp add: m_def c_def)
  have "(case filterValuesE (shouldReset c en)
                (filterValues (\<lambda>block. blockType block = ATOMIC)
                   (mapValues normaliseAtomic m)) of
           Inl e \<Rightarrow> Inl e
         | Inr toReset \<Rightarrow>
             Inr (setBlockMap s (merge m
               (if length (mapValues (\<lambda>block. block\<lparr>blockType := UNSTYLED\<rparr>) toReset) \<noteq> 0
                then merge m (mapValues (\<lambda>block. block\<lparr>blockType := UNSTYLED\<rparr>) toReset)
                else mapValues normaliseAtomic m)))) = Inr s'"
    using r
    unfolding resetAtomicBlocks_def Let_def c_def [symmetric] m_def [symmetric]
      merge_changed_if [OF dm] normaliseAtomic_fun .
  then obtain toReset where
    t: "filterValuesE (shouldReset c en)
          (filterValues (\<lambda>block. blockType block = ATOMIC) (mapValues normaliseAtomic m)) =
        Inr toReset"
    and s': "s' = setBlockMap s (merge m
               (if length (mapValues (\<lambda>block. block\<lparr>blockType := UNSTYLED\<rparr>) toReset) \<noteq> 0
                then merge m (mapValues (\<lambda>block. block\<lparr>blockType := UNSTYLED\<rparr>) toReset)
                else mapValues normaliseAtomic m))"
    by (auto split: sum.splits)
  have rb: "mapValues (\<lambda>block. block\<lparr>blockType := UNSTYLED\<rparr>) toReset = replacements h m"
    unfolding filterValuesE_Inr [OF t] reset_as_replacements h_def demoted_def
    by (simp cong: if_cong)
  have any: "(replacements h m \<noteq> []) = (\<exists>(k, b) \<in> set m. demoted c en b)"
    by (auto simp: replacements_Nil_iff h_def split: if_splits)
  have rep: "replaced h = atomicResult True c en"
    by (auto simp: fun_eq_iff h_def replaced_def atomicResult_def)
  have fin: "merge m
          (if length (replacements h m) \<noteq> 0 then merge m (replacements h m)
           else mapValues normaliseAtomic m) =
        mapValues (atomicResult (\<exists>(k, b) \<in> set m. demoted c en b) c en) m"
  proof (cases "replacements h m = []")
    case True
    have "atomicResult False c en = normaliseAtomic"
      by (simp add: fun_eq_iff atomicResult_def)
    with True any show ?thesis
      using merge_all [OF dm, of normaliseAtomic] by simp
  next
    case False
    with any have a: "(\<exists>(k, b) \<in> set m. demoted c en b) = True" by simp
    from False show ?thesis
      unfolding a
      by (simp add: merge_replacements [OF dm] rep merge_all [OF dm])
  qed
  have
    "s' = setBlockMap s (mapValues (atomicResult (\<exists>(k, b) \<in> set m. demoted c en b) c en) m)"
    using s' unfolding rb fin .
  then show ?thesis
    unfolding m_def c_def .
qed

subsection \<open>Entities\<close>

lemma cleared_neq: "entity ch = Some k \<Longrightarrow> ch\<lparr>entity := None\<rparr> \<noteq> ch"
proof
  assume "entity ch = Some k" and "ch\<lparr>entity := None\<rparr> = ch"
  then have "entity (ch\<lparr>entity := None\<rparr>) = Some k" by simp
  then show False by simp
qed

lemma filterEntityChar_Inr:
  assumes "filterEntityChar c en bt a ch = Inr (a', ch')"
  shows "ch' = clearEntity c en bt ch" and "a' = (a \<or> ch' \<noteq> ch)"
    and "resolved c (entity ch)"
  using assms
  by (auto simp: filterEntityChar_def clearEntity_def resolved_def Let_def applyEntity_def
        truthy_def
      split: if_splits sum.splits option.splits dest: cleared_neq)

lemma filterEntityChars_Inr:
  "filterEntityChars c en bt a cs = Inr (a', cs') \<Longrightarrow>
     cs' = map (clearEntity c en bt) cs \<and> a' = (a \<or> cs' \<noteq> cs) \<and>
     (\<forall>ch \<in> set cs. resolved c (entity ch))"
proof (induction cs arbitrary: a a' cs')
  case Nil
  then show ?case by simp
next
  case (Cons ch cs)
  from Cons.prems obtain a1 ch1 a2 cs2 where
    1: "filterEntityChar c en bt a ch = Inr (a1, ch1)"
    and 2: "filterEntityChars c en bt a1 cs = Inr (a2, cs2)"
    and 3: "a' = a2" "cs' = ch1 # cs2"
    by (auto split: sum.splits prod.splits)
  from filterEntityChar_Inr [OF 1] Cons.IH [OF 2] 3 show ?case
    by auto
qed

lemma filterEntityBlock_Inr:
  assumes "filterEntityBlock c en b = Inr b'"
  shows "b' = clearEntities c en b"
    and "\<forall>ch \<in> set (characterList b). resolved c (entity ch)"
proof -
  from assms obtain a cs where
    1: "filterEntityChars c en (blockType b) False (characterList b) = Inr (a, cs)"
    and 2: "b' = (if a then b\<lparr>characterList := cs\<rparr> else b)"
    by (auto simp: filterEntityBlock_def split: sum.splits prod.splits)
  from filterEntityChars_Inr [OF 1] 2 show "b' = clearEntities c en b"
    by (auto simp: clearEntities_def)
  from filterEntityChars_Inr [OF 1]
  show "\<forall>ch \<in> set (characterList b). resolved c (entity ch)"
    by simp
qed

lemma mapValuesE_Inr:
  "mapValuesE f m = Inr r \<Longrightarrow> (\<And>v w. f v = Inr w \<Longrightarrow> w = g v) \<Longrightarrow> r = mapValues g m"
  by (induction m arbitrary: r) (auto split: sum.splits)

lemma mapValuesE_defined:
  "mapValuesE f m = Inr r \<Longrightarrow> (k, v) \<in> set m \<Longrightarrow> \<exists>w. f v = Inr w"
  by (induction m arbitrary: r) (auto split: sum.splits)

lemma filterEntityType_eq:
  assumes d: "distinct (map fst (blockMap (currentContent s)))"
    and r: "filterEntityType s en = Inr s'"
  shows "s' = setBlockMap s
           (mapValues (clearEntities (currentContent s) en) (blockMap (currentContent s)))"
    and "\<forall>(k, b) \<in> set (blockMap (currentContent s)).
           \<forall>ch \<in> set (characterList b). resolved (currentContent s) (entity ch)"
proof -
  from r obtain blocks where
    1: "mapValuesE (filterEntityBlock (currentContent s) en) (blockMap (currentContent s)) =
          Inr blocks"
    and 2: "s' = setBlockMap s (merge (blockMap (currentContent s)) blocks)"
    by (auto simp: filterEntityType_def Let_def split: sum.splits)
  have "blocks = mapValues (clearEntities (currentContent s) en) (blockMap (currentContent s))"
    using 1 by (rule mapValuesE_Inr) (rule filterEntityBlock_Inr)
  with 2 d show "s' = setBlockMap s
           (mapValues (clearEntities (currentContent s) en) (blockMap (currentContent s)))"
    by (simp add: merge_all)
  show "\<forall>(k, b) \<in> set (blockMap (currentContent s)).
           \<forall>ch \<in> set (characterList b). resolved (currentContent s) (entity ch)"
    using mapValuesE_defined [OF 1] filterEntityBlock_Inr(2) by fast
qed

subsection \<open>The pipeline\<close>

text \<open>
  A snapshot that the pipeline returns is the snapshot that came in with \<open>pipelineBlock\<close>
  applied to every block.
\<close>

lemma getBlockMap_setBlockMap [simp]: "getBlockMap (setBlockMap s m) = m"
  by (simp add: setBlockMap_def)

lemma entityMap_setBlockMap [simp]:
  "entityMap (currentContent (setBlockMap s m)) = entityMap (currentContent s)"
  by (simp add: setBlockMap_def)

lemma setBlockMap_twice [simp]: "setBlockMap (setBlockMap s m) m' = setBlockMap s m'"
  by (simp add: setBlockMap_def)

lemma getEntity_cong: "entityMap c = entityMap c' \<Longrightarrow> getEntity c = getEntity c'"
  by (rule ext) (simp add: getEntity_def split: option.splits)

lemma getEntity_setBlockMap [simp]:
  "getEntity (currentContent (setBlockMap s m)) = getEntity (currentContent s)"
  by (rule getEntity_cong) simp

lemma shouldReset_setBlockMap [simp]:
  "shouldReset (currentContent (setBlockMap s m)) = shouldReset (currentContent s)"
  by (simp add: fun_eq_iff shouldReset_def Let_def)

lemma demoted_setBlockMap [simp]:
  "demoted (currentContent (setBlockMap s m)) = demoted (currentContent s)"
  by (simp add: fun_eq_iff demoted_def)

lemma atomicResult_setBlockMap [simp]:
  "atomicResult a (currentContent (setBlockMap s m)) = atomicResult a (currentContent s)"
  by (simp add: fun_eq_iff atomicResult_def)

lemma clearEntities_setBlockMap [simp]:
  "clearEntities (currentContent (setBlockMap s m)) = clearEntities (currentContent s)"
  by (simp add: fun_eq_iff clearEntities_def clearEntity_def)

lemma resolved_setBlockMap [simp]:
  "resolved (currentContent (setBlockMap s m)) = resolved (currentContent s)"
  by (simp add: fun_eq_iff resolved_def)

lemma mapValues_mapValues: "mapValues f (mapValues g m) = mapValues (\<lambda>v. f (g v)) m"
  by (induction m) auto

lemma set_mapValues: "set (mapValues f m) = (\<lambda>(k, v). (k, f v)) ` set m"
  by (simp add: mapValues_def)

lemma resetBlockDepth_clamp:
  "distinct (map fst (getBlockMap s)) \<Longrightarrow>
     resetBlockDepth s mx = setBlockMap s (mapValues (clampDepth mx) (getBlockMap s))"
  by (simp add: resetBlockDepth_eq clampDepth_def [abs_def])

lemma resetBlockType_demote:
  "distinct (map fst (getBlockMap s)) \<Longrightarrow>
     resetBlockType s en = setBlockMap s (mapValues (demoteType en) (getBlockMap s))"
  by (simp add: resetBlockType_eq demoteType_def [abs_def])

lemma first_three_stages:
  assumes d: "distinct (map fst (getBlockMap s))"
  shows "filterInlineStyle (resetBlockType (resetBlockDepth s mx) ebt) eis =
    setBlockMap s
      (mapValues (\<lambda>b. keepStylesBlock eis (demoteType ebt (clampDepth mx b))) (getBlockMap s))"
  using d
  by (simp add: resetBlockDepth_clamp resetBlockType_demote filterInlineStyle_eq
        mapValues_mapValues)

lemma ball_mapValues:
  "(\<forall>(k, v) \<in> set (mapValues f m). P v) = (\<forall>x \<in> set m. P (f (snd x)))"
  by (auto simp: set_mapValues)

lemma bex_mapValues:
  "(\<exists>(k, v) \<in> set (mapValues f m). P v) = (\<exists>x \<in> set m. P (f (snd x)))"
  by (induction m) auto

lemma filterEditorState_Inr_explicit:
  assumes d: "distinct (map fst (getBlockMap s))"
    and r: "filterEditorState s mx hr bts ists ets = Inr s'"
  shows
    "s' = setBlockMap s
            (mapValues
               (pipelineBlock
                  (\<exists>x \<in> set (getBlockMap s).
                     demoted (currentContent s)
                       (if hr then map type ets @ [HORIZONTAL_RULE] else map type ets)
                       (keepStylesBlock (map type ists)
                          (demoteType (map type bts @ [UNSTYLED, ATOMIC])
                             (clampDepth mx (snd x)))))
                  (currentContent s) mx
                  (map type bts @ [UNSTYLED, ATOMIC]) (map type ists)
                  (if hr then map type ets @ [HORIZONTAL_RULE] else map type ets))
               (getBlockMap s))"
proof -
  define ebt where "ebt = map type bts @ [UNSTYLED, ATOMIC]"
  define eis where "eis = map type ists"
  define eet where "eet = (if hr then map type ets @ [HORIZONTAL_RULE] else map type ets)"
  define f3 where "f3 = (\<lambda>b. keepStylesBlock eis (demoteType ebt (clampDepth mx b)))"
  define s3 where "s3 = setBlockMap s (mapValues f3 (getBlockMap s))"
  have s3: "filterInlineStyle (resetBlockType (resetBlockDepth s mx) ebt) eis = s3"
    using first_three_stages [OF d] by (simp add: s3_def f3_def)
  have d3: "distinct (map fst (getBlockMap s3))"
    using d by (simp add: s3_def)
  from r obtain s4 where
    4: "resetAtomicBlocks s3 eet = Inr s4" and 5: "filterEntityType s4 eet = Inr s'"
    unfolding filterEditorState_def Let_def ebt_def [symmetric] eis_def [symmetric]
      eet_def [symmetric] s3
    by (auto split: sum.splits)
  define a where "a = (\<exists>x \<in> set (getBlockMap s). demoted (currentContent s) eet (f3 (snd x)))"
  have a: "(\<exists>(k, b) \<in> set (getBlockMap s3). demoted (currentContent s3) eet b) = a"
    by (simp add: a_def s3_def bex_mapValues)
  have s4: "s4 = setBlockMap s
              (mapValues (\<lambda>b. atomicResult a (currentContent s) eet (f3 b)) (getBlockMap s))"
    using resetAtomicBlocks_eq [OF d3 4] unfolding a
    by (simp add: s3_def mapValues_mapValues)
  have d4: "distinct (map fst (getBlockMap s4))"
    using d by (simp add: s4)
  have "s' = setBlockMap s
              (mapValues (\<lambda>b. clearEntities (currentContent s) eet
                                 (atomicResult a (currentContent s) eet (f3 b)))
                 (getBlockMap s))"
    using filterEntityType_eq(1) [OF d4 5]
    by (simp add: s4 mapValues_mapValues)
  then show ?thesis
    unfolding pipelineBlock_def [abs_def] a_def f3_def ebt_def eis_def eet_def .
qed

lemma filterEditorState_Inr:
  assumes d: "distinct (map fst (getBlockMap s))"
    and r: "filterEditorState s mx hr bts ists ets = Inr s'"
  shows "\<exists>anyDemoted.
     s' = setBlockMap s
            (mapValues
               (pipelineBlock anyDemoted (currentContent s) mx
                  (map type bts @ [UNSTYLED, ATOMIC]) (map type ists)
                  (if hr then map type ets @ [HORIZONTAL_RULE] else map type ets))
               (getBlockMap s))"
  using filterEditorState_Inr_explicit [OF d r] by blast

subsection \<open>Fields of a block after the stages\<close>

lemma depth_clampDepth: "depth (clampDepth mx b) \<le> mx"
  by (simp add: clampDepth_def)

lemma depth_demoteType [simp]: "depth (demoteType en b) = depth b"
  by (simp add: demoteType_def)

lemma depth_keepStylesBlock [simp]: "depth (keepStylesBlock en b) = depth b"
  by (simp add: keepStylesBlock_def)

lemma depth_atomicResult [simp]: "depth (atomicResult a c en b) = depth b"
  by (simp add: atomicResult_def normaliseAtomic_def)

lemma depth_clearEntities [simp]: "depth (clearEntities c en b) = depth b"
  by (simp add: clearEntities_def)

lemma blockType_demoteType: "UNSTYLED \<in> set en \<Longrightarrow> blockType (demoteType en b) \<in> set en"
  by (simp add: demoteType_def)

lemma blockType_keepStylesBlock [simp]: "blockType (keepStylesBlock en b) = blockType b"
  by (simp add: keepStylesBlock_def)

lemma blockType_atomicResult:
  "blockType (atomicResult a c en b) = blockType b \<or> blockType (atomicResult a c en b) = UNSTYLED"
  by (simp add: atomicResult_def)

lemma blockType_clearEntities [simp]: "blockType (clearEntities c en b) = blockType b"
  by (simp add: clearEntities_def)

lemma blockText_clearEntities [simp]: "blockText (clearEntities c en b) = blockText b"
  by (simp add: clearEntities_def)

lemma style_clearEntity [simp]: "style (clearEntity c en bt ch) = style ch"
  by (simp add: clearEntity_def split: sum.splits)

lemma styles_clearEntities [simp]:
  "map style (characterList (clearEntities c en b)) = map style (characterList b)"
  by (simp add: clearEntities_def)

lemma chars_atomicResult: "set (characterList (atomicResult a c en b)) \<subseteq> set (characterList b)"
  by (auto simp: atomicResult_def normaliseAtomic_def dest: in_set_takeD)

lemma style_keepStyles: "set (style (keepStyles en ch)) \<subseteq> set en"
  by (auto simp: keepStyles_def)

lemma styles_pipelineBlock:
  assumes "ch \<in> set (characterList (pipelineBlock a c mx ebt eis eet b))"
  shows "set (style ch) \<subseteq> set eis"
proof -
  from assms obtain ch4 where
    4: "ch4 \<in> set (characterList (atomicResult a c eet
                      (keepStylesBlock eis (demoteType ebt (clampDepth mx b)))))"
    and ch: "ch = clearEntity c eet
                   (blockType (atomicResult a c eet
                      (keepStylesBlock eis (demoteType ebt (clampDepth mx b))))) ch4"
    by (auto simp: pipelineBlock_def clearEntities_def)
  from 4 chars_atomicResult
  have "ch4 \<in> set (characterList (keepStylesBlock eis (demoteType ebt (clampDepth mx b))))"
    by blast
  then obtain ch3 where "ch4 = keepStyles eis ch3"
    by (auto simp: keepStylesBlock_def)
  with ch show ?thesis
    by (simp add: style_keepStyles)
qed

lemma depth_pipelineBlock: "depth (pipelineBlock a c mx ebt eis eet b) \<le> mx"
  by (simp add: pipelineBlock_def depth_clampDepth)

lemma blockType_clampDepth [simp]: "blockType (clampDepth mx b) = blockType b"
  by (simp add: clampDepth_def)

lemma blockType_pipelineBlock:
  assumes "UNSTYLED \<in> set ebt"
  shows "blockType (pipelineBlock a c mx ebt eis eet b) \<in> set ebt"
  using blockType_atomicResult [of a c eet "keepStylesBlock eis (demoteType ebt (clampDepth mx b))"]
    blockType_demoteType [OF assms, of "clampDepth mx b"] assms
  by (auto simp: pipelineBlock_def)

lemma clearEntity_kept:
  assumes "resolved c (entity ch)" and "truthy (entity (clearEntity c en bt ch))"
  shows "case getEntity c (entity (clearEntity c en bt ch)) of
           Inl e \<Rightarrow> False
         | Inr instance \<Rightarrow>
             entityType instance \<in> set en \<and> (entityType instance = IMAGE \<longrightarrow> bt = ATOMIC)"
  using assms
  by (auto simp: clearEntity_def resolved_def truthy_def split: sum.splits if_splits)

subsection \<open>Runs on the example document\<close>

text \<open>
  The runs are evaluated on the block map; the entity registry is never written.
\<close>

lemma entityMap_resetAtomicBlocks:
  "resetAtomicBlocks s en = Inr t \<Longrightarrow> entityMap (currentContent t) = entityMap (currentContent s)"
  by (auto simp: resetAtomicBlocks_def Let_def split: sum.splits)

lemma entityMap_filterEntityType:
  "filterEntityType s en = Inr t \<Longrightarrow> entityMap (currentContent t) = entityMap (currentContent s)"
  by (auto simp: filterEntityType_def Let_def split: sum.splits)

lemma entityMap_filterEditorState:
  "filterEditorState s mx hr bts ists ets = Inr t \<Longrightarrow>
     entityMap (currentContent t) = entityMap (currentContent s)"
  by (auto simp: filterEditorState_def Let_def resetBlockDepth_def resetBlockType_def
        filterInlineStyle_def
      dest!: entityMap_resetAtomicBlocks entityMap_filterEntityType split: sum.splits)

lemma run_result:
  assumes "case r of Inl e \<Rightarrow> False | Inr t \<Rightarrow> getBlockMap t = m"
    and "\<And>t. r = Inr t \<Longrightarrow> entityMap (currentContent t) = entityMap (currentContent s)"
  shows "r = Inr (setBlockMap s m)"
proof (cases r)
  case (Inl e)
  with assms(1) show ?thesis by simp
next
  case (Inr t)
  with assms have "getBlockMap t = m" "entityMap (currentContent t) = entityMap (currentContent s)"
    by simp_all
  then have "t = setBlockMap s m"
    by (simp add: setBlockMap_def)
  with Inr show ?thesis by simp
qed

lemma example_blocks:
  "case filterEditorState exampleState 1 False exampleBlockTypes exampleInlineStyles
          exampleEntityTypes of
     Inl e \<Rightarrow> False | Inr t \<Rightarrow> getBlockMap t = exampleResultBlocks"
  by code_simp

lemma example_run:
  "filterEditorState exampleState 1 False exampleBlockTypes exampleInlineStyles
     exampleEntityTypes = Inr exampleResult"
proof -
  have "exampleResult = setBlockMap exampleState exampleResultBlocks"
    by (simp add: exampleResult_def exampleState_def setBlockMap_def)
  moreover have "filterEditorState exampleState 1 False exampleBlockTypes exampleInlineStyles
     exampleEntityTypes = Inr (setBlockMap exampleState exampleResultBlocks)"
    by (rule run_result [OF example_blocks]) (rule entityMap_filterEditorState)
  ultimately show ?thesis by simp
qed

lemma example_distinct: "distinct (map fst (getBlockMap exampleState))"
  by code_simp

section \<open>Consequences for the pipeline\<close>

subsection \<open>The last stage\<close>

lemma clearEntities_closed:
  assumes "\<forall>ch \<in> set (characterList b). resolved c (entity ch)"
    and "ch \<in> set (characterList (clearEntities c en b))"
    and "truthy (entity ch)"
  shows "case getEntity c (entity ch) of
           Inl e \<Rightarrow> False
         | Inr instance \<Rightarrow>
             entityType instance \<in> set en \<and>
             (entityType instance = IMAGE \<longrightarrow> blockType b = ATOMIC)"
proof -
  from assms(2) obtain ch0 where
    "ch0 \<in> set (characterList b)" and "ch = clearEntity c en (blockType b) ch0"
    by (auto simp: clearEntities_def)
  with assms(1,3) show ?thesis
    using clearEntity_kept [of c ch0 en "blockType b"] by simp
qed

lemma filterEntityType_closed:
  assumes d: "distinct (map fst (getBlockMap s))"
    and r: "filterEntityType s en = Inr t"
    and b: "(k, b) \<in> set (getBlockMap t)"
    and ch: "ch \<in> set (characterList b)" "truthy (entity ch)"
  shows "case getEntity (currentContent t) (entity ch) of
           Inl e \<Rightarrow> False
         | Inr instance \<Rightarrow>
             entityType instance \<in> set en \<and>
             (entityType instance = IMAGE \<longrightarrow> blockType b = ATOMIC)"
proof -
  note t = filterEntityType_eq(1) [OF d r]
  from b obtain b0 where
    b0: "(k, b0) \<in> set (getBlockMap s)" and bb: "b = clearEntities (currentContent s) en b0"
    unfolding t by (auto simp: set_mapValues)
  from filterEntityType_eq(2) [OF d r] b0
  have "\<forall>ch \<in> set (characterList b0). resolved (currentContent s) (entity ch)"
    by blast
  from clearEntities_closed [OF this ch(1) [unfolded bb] ch(2)]
  show ?thesis
    unfolding t getEntity_setBlockMap bb blockType_clearEntities .
qed

lemma filterEditorState_last:
  assumes d: "distinct (map fst (getBlockMap s))"
    and r: "filterEditorState s mx hr bts ists ets = Inr s'"
  shows "\<exists>s4. distinct (map fst (getBlockMap s4)) \<and>
           filterEntityType s4
             (if hr then map type ets @ [HORIZONTAL_RULE] else map type ets) = Inr s'"
proof -
  let ?s3 = "filterInlineStyle
               (resetBlockType (resetBlockDepth s mx) (map type bts @ [UNSTYLED, ATOMIC]))
               (map type ists)"
  let ?eet = "if hr then map type ets @ [HORIZONTAL_RULE] else map type ets"
  have d3: "distinct (map fst (getBlockMap ?s3))"
    using d by (simp add: first_three_stages)
  from r obtain s4 where
    4: "resetAtomicBlocks ?s3 ?eet = Inr s4" and 5: "filterEntityType s4 ?eet = Inr s'"
    unfolding filterEditorState_def Let_def by (auto split: sum.splits)
  have "distinct (map fst (getBlockMap s4))"
    using d3 unfolding resetAtomicBlocks_eq [OF d3 4] by simp
  with 5 show ?thesis by blast
qed

lemma set_enabledEntityTypes:
  "set (if hr then map type ets @ [HORIZONTAL_RULE] else map type ets) =
     effectiveEntityTypes hr ets"
  by (auto simp: effectiveEntityTypes_def)

lemma example_filterEntityType_blocks:
  "case filterEntityType exampleState (map type exampleEntityTypes) of
     Inl e \<Rightarrow> False | Inr t \<Rightarrow> getBlockMap t = exampleEntityFiltered"
  by code_simp

lemma example_filterEntityType:
  "filterEntityType exampleState (map type exampleEntityTypes) =
     Inr (setBlockMap exampleState exampleEntityFiltered)"
  by (rule run_result [OF example_filterEntityType_blocks]) (rule entityMap_filterEntityType)

lemma example_resetAtomicBlocks_blocks:
  "case resetAtomicBlocks exampleState (map type exampleEntityTypes) of
     Inl e \<Rightarrow> False | Inr t \<Rightarrow> getBlockMap t = exampleAtomicReset"
  by code_simp

lemma example_resetAtomicBlocks:
  "resetAtomicBlocks exampleState (map type exampleEntityTypes) =
     Inr (setBlockMap exampleState exampleAtomicReset)"
  by (rule run_result [OF example_resetAtomicBlocks_blocks]) (rule entityMap_resetAtomicBlocks)

subsection \<open>When the stages return\<close>

text \<open>
  The two stages that look entities up return whenever every entity key that they look
  up is registered; so does the pipeline.
\<close>

lemma mapValues_id: "(\<forall>x \<in> set m. f (snd x) = snd x) \<Longrightarrow> mapValues f m = m"
  by (induction m) auto

lemma filterValuesE_defined:
  "(\<forall>x \<in> set m. \<exists>r. p (snd x) = Inr r) \<Longrightarrow> \<exists>r. filterValuesE p m = Inr r"
  by (induction m) (auto split: sum.splits)

lemma mapValuesE_total:
  "(\<forall>x \<in> set m. \<exists>w. f (snd x) = Inr w) \<Longrightarrow> \<exists>r. mapValuesE f m = Inr r"
  by (induction m) (auto split: sum.splits)

lemma shouldReset_defined:
  "resolved c (getEntityAt b 0) \<Longrightarrow> \<exists>r. shouldReset c en b = Inr r"
  by (auto simp: shouldReset_def resolved_def Let_def split: sum.splits)

lemma filterEntityChar_defined:
  "resolved c (entity ch) \<Longrightarrow> \<exists>r. filterEntityChar c en bt a ch = Inr r"
  by (auto simp: filterEntityChar_def resolved_def Let_def split: sum.splits)

lemma filterEntityChars_defined:
  "(\<forall>ch \<in> set cs. resolved c (entity ch)) \<Longrightarrow> \<exists>r. filterEntityChars c en bt a cs = Inr r"
proof (induction cs arbitrary: a)
  case Nil
  show ?case by simp
next
  case (Cons ch cs)
  from Cons.prems obtain a1 ch1 where 1: "filterEntityChar c en bt a ch = Inr (a1, ch1)"
    using filterEntityChar_defined [of c ch en bt a] by auto
  from Cons.prems Cons.IH [of a1] obtain a2 cs2 where
    "filterEntityChars c en bt a1 cs = Inr (a2, cs2)"
    by auto
  with 1 show ?case by simp
qed

lemma filterEntityType_defined:
  assumes "\<forall>x \<in> set (getBlockMap s). \<forall>ch \<in> set (characterList (snd x)).
             resolved (currentContent s) (entity ch)"
  shows "\<exists>t. filterEntityType s en = Inr t"
proof -
  have "\<exists>w. filterEntityBlock (currentContent s) en (snd x) = Inr w"
    if "x \<in> set (getBlockMap s)" for x
    using filterEntityChars_defined [of "characterList (snd x)" "currentContent s" en
        "blockType (snd x)" False] assms that
    by (auto simp: filterEntityBlock_def)
  then obtain r where
    "mapValuesE (filterEntityBlock (currentContent s) en) (getBlockMap s) = Inr r"
    using mapValuesE_total [of "getBlockMap s" "filterEntityBlock (currentContent s) en"]
    by blast
  then show ?thesis
    by (simp add: filterEntityType_def Let_def)
qed

lemma resetAtomicBlocks_defined:
  assumes d: "distinct (map fst (getBlockMap s))"
    and res: "\<forall>x \<in> set (getBlockMap s).
                resolved (currentContent s) (getEntityAt (normaliseAtomic (snd x)) 0)"
  shows "\<exists>t. resetAtomicBlocks s en = Inr t"
proof -
  define c where "c = currentContent s"
  define m where "m = blockMap c"
  have dm: "distinct (map fst m)" using d by (simp add: m_def c_def)
  have "\<forall>x \<in> set (filterValues (\<lambda>block. blockType block = ATOMIC)
                      (mapValues normaliseAtomic m)).
          \<exists>r. shouldReset c en (snd x) = Inr r"
    using res shouldReset_defined [of c _ en]
    by (auto simp: filterValues_def set_mapValues m_def c_def)
  from filterValuesE_defined [OF this] obtain toReset where
    "filterValuesE (shouldReset c en)
       (filterValues (\<lambda>block. blockType block = ATOMIC) (mapValues normaliseAtomic m)) =
     Inr toReset"
    by blast
  then show ?thesis
    unfolding resetAtomicBlocks_def Let_def c_def [symmetric] m_def [symmetric]
      merge_changed_if [OF dm] normaliseAtomic_fun
    by simp
qed

lemma resolved_None [simp]: "resolved c None"
  by (simp add: resolved_def truthy_def)

lemma getEntityAt_resolved:
  assumes "\<forall>ch \<in> set (characterList b). resolved c (entity ch)"
  shows "resolved c (getEntityAt (normaliseAtomic b) 0)"
proof (cases "characterList b")
  case Nil
  then show ?thesis
    by (simp add: getEntityAt_def normaliseAtomic_def)
next
  case (Cons ch cs)
  with assms show ?thesis
    by (simp add: getEntityAt_def normaliseAtomic_def)
qed

lemma entities_first_three:
  "map entity (characterList (keepStylesBlock eis (demoteType ebt (clampDepth mx b)))) =
     map entity (characterList b)"
  by (simp add: keepStylesBlock_def demoteType_def clampDepth_def keepStyles_def comp_def)

lemma resolved_first_three:
  assumes "\<forall>ch \<in> set (characterList b). resolved c (entity ch)"
    and "ch \<in> set (characterList (keepStylesBlock eis (demoteType ebt (clampDepth mx b))))"
  shows "resolved c (entity ch)"
proof -
  from assms(2) have "entity ch \<in> set (map entity (characterList b))"
    unfolding entities_first_three [symmetric, of b eis ebt mx] by simp
  with assms(1) show ?thesis by auto
qed

lemma filterEditorState_defined:
  assumes d: "distinct (map fst (getBlockMap s))" and e: "entitiesResolved s"
  shows "\<exists>s'. filterEditorState s mx hr bts ists ets = Inr s'"
proof -
  define ebt where "ebt = map type bts @ [UNSTYLED, ATOMIC]"
  define eis where "eis = map type ists"
  define eet where "eet = (if hr then map type ets @ [HORIZONTAL_RULE] else map type ets)"
  define f3 where "f3 = (\<lambda>b. keepStylesBlock eis (demoteType ebt (clampDepth mx b)))"
  define s3 where "s3 = setBlockMap s (mapValues f3 (getBlockMap s))"
  have s3: "filterInlineStyle (resetBlockType (resetBlockDepth s mx) ebt) eis = s3"
    using first_three_stages [OF d] by (simp add: s3_def f3_def)
  have d3: "distinct (map fst (getBlockMap s3))"
    using d by (simp add: s3_def)
  have r3: "\<forall>ch \<in> set (characterList (f3 b)). resolved (currentContent s) (entity ch)"
    if "(k, b) \<in> set (getBlockMap s)" for k b
    using e that resolved_first_three [of b "currentContent s" _ eis ebt mx]
    unfolding entitiesResolved_def f3_def by blast
  have "\<forall>x \<in> set (getBlockMap s3).
          resolved (currentContent s3) (getEntityAt (normaliseAtomic (snd x)) 0)"
    using r3 getEntityAt_resolved
    by (auto simp: s3_def set_mapValues)
  from resetAtomicBlocks_defined [OF d3 this] obtain s4 where
    4: "resetAtomicBlocks s3 eet = Inr s4"
    by blast
  define a where "a = (\<exists>(k, b) \<in> set (getBlockMap s3). demoted (currentContent s3) eet b)"
  have s4: "s4 = setBlockMap s
              (mapValues (\<lambda>b. atomicResult a (currentContent s) eet (f3 b)) (getBlockMap s))"
    using resetAtomicBlocks_eq [OF d3 4]
    by (simp add: a_def) (simp add: s3_def mapValues_mapValues)
  have "\<forall>x \<in> set (getBlockMap s4). \<forall>ch \<in> set (characterList (snd x)).
          resolved (currentContent s4) (entity ch)"
    using r3 chars_atomicResult [of a "currentContent s" eet]
    by (auto simp: s4 set_mapValues) blast
  from filterEntityType_defined [OF this] obtain s' where
    "filterEntityType s4 eet = Inr s'"
    by blast
  with 4 show ?thesis
    unfolding filterEditorState_def Let_def ebt_def [symmetric] eis_def [symmetric]
      eet_def [symmetric] s3
    by simp
qed

subsection \<open>Sanitised snapshots\<close>

lemma entityClosure_resolved: "entityClosure hr ets s \<Longrightarrow> entitiesResolved s"
  by (fastforce simp: entityClosure_def entitiesResolved_def resolved_def split: sum.splits)

lemma clearEntity_same:
  assumes "truthy (entity ch) \<longrightarrow>
           (case getEntity c (entity ch) of
              Inl e \<Rightarrow> False
            | Inr instance \<Rightarrow> entityType instance \<in> set en)"
    and "bt \<noteq> ATOMIC \<longrightarrow> truthy (entity ch) \<longrightarrow>
           (case getEntity c (entity ch) of
              Inl e \<Rightarrow> True
            | Inr instance \<Rightarrow> entityType instance \<noteq> IMAGE)"
  shows "clearEntity c en bt ch = ch"
  using assms by (auto simp: clearEntity_def split: sum.splits)

lemma not_demoted:
  assumes "blockType b = ATOMIC \<longrightarrow> blockText b = '' ''"
    and "\<forall>ch \<in> set (characterList b). truthy (entity ch) \<longrightarrow>
           (case getEntity c (entity ch) of
              Inl e \<Rightarrow> False
            | Inr instance \<Rightarrow> entityType instance \<in> set en)"
  shows "\<not> demoted c en b"
proof (cases "characterList b")
  case Nil
  then show ?thesis
    by (simp add: demoted_def shouldReset_def getEntityAt_def normaliseAtomic_def truthy_def)
next
  case (Cons ch cs)
  with assms show ?thesis
    by (auto simp: demoted_def shouldReset_def getEntityAt_def normaliseAtomic_def Let_def
          split: sum.splits)
qed

lemma example_closures:
  "depthBound 1 exampleResult" "typeClosure exampleBlockTypes exampleResult"
  "styleClosure exampleInlineStyles exampleResult"
  "entityClosure False exampleEntityTypes exampleResult"
  "imageContainment exampleResult" "atomicShape exampleResult"
  "distinct (map fst (getBlockMap exampleResult))"
  by code_simp+

subsection \<open>Runs that lose the normalisation\<close>

lemma bug_once_blocks:
  "case filterEditorState bugState 1 False [] [] bugEntityTypes of
     Inl e \<Rightarrow> False | Inr t \<Rightarrow> getBlockMap t = bugOnce"
  by code_simp

lemma bug_once:
  "filterEditorState bugState 1 False [] [] bugEntityTypes = Inr (setBlockMap bugState bugOnce)"
  by (rule run_result [OF bug_once_blocks]) (rule entityMap_filterEditorState)

lemma bug_twice_blocks:
  "case filterEditorState (setBlockMap bugState bugOnce) 1 False [] [] bugEntityTypes of
     Inl e \<Rightarrow> False | Inr t \<Rightarrow> getBlockMap t = bugTwice"
  by code_simp

lemma bug_twice:
  "filterEditorState (setBlockMap bugState bugOnce) 1 False [] [] bugEntityTypes =
     Inr (setBlockMap bugState bugTwice)"
  using run_result [OF bug_twice_blocks, of "setBlockMap bugState bugOnce"]
    entityMap_filterEditorState
  by simp

lemma lone_blocks:
  "case filterEditorState (setBlockMap bugState loneBlocks) 1 False [] [] bugEntityTypes of
     Inl e \<Rightarrow> False | Inr t \<Rightarrow> getBlockMap t = take 1 bugTwice"
  by code_simp

lemma merge_drops_normalisation:
  "filterEditorState bugState 1 False [] [] bugEntityTypes = Inr (setBlockMap bugState bugOnce) \<and>
   \<not> atomicShape (setBlockMap bugState bugOnce) \<and>
   map_of bugOnce ''a'' = map_of bugBlocks ''a'' \<and>
   filterEditorState (setBlockMap bugState loneBlocks) 1 False [] [] bugEntityTypes =
     Inr (setBlockMap bugState (take 1 bugTwice)) \<and>
   atomicShape (setBlockMap bugState (take 1 bugTwice))"
proof -
  have 1: "\<not> atomicShape (setBlockMap bugState bugOnce)" by code_simp
  have 2: "map_of bugOnce ''a'' = map_of bugBlocks ''a''" by code_simp
  have 3: "filterEditorState (setBlockMap bugState loneBlocks) 1 False [] [] bugEntityTypes =
     Inr (setBlockMap bugState (take 1 bugTwice))"
    using run_result [OF lone_blocks, of "setBlockMap bugState loneBlocks"]
      entityMap_filterEditorState
    by simp
  have 4: "atomicShape (setBlockMap bugState (take 1 bugTwice))" by code_simp
  from bug_once 1 2 3 4 show ?thesis by blast
qed

lemma empty_atomic_blocks:
  "case resetAtomicBlocks emptyAtomicState (map type bugEntityTypes) of
     Inl e \<Rightarrow> False | Inr t \<Rightarrow> getBlockMap t = emptyAtomicResult"
  by code_simp

subsection \<open>Documents without demotion\<close>

lemma getEntityAt_first_three:
  "getEntityAt (normaliseAtomic (keepStylesBlock eis (demoteType ebt (clampDepth mx b)))) 0 =
     getEntityAt (normaliseAtomic b) 0"
proof (cases "characterList b")
  case Nil
  then show ?thesis
    by (simp add: getEntityAt_def normaliseAtomic_def keepStylesBlock_def demoteType_def
          clampDepth_def)
next
  case (Cons ch cs)
  then show ?thesis
    by (simp add: getEntityAt_def normaliseAtomic_def keepStylesBlock_def demoteType_def
          clampDepth_def keepStyles_def)
qed

lemma demoted_first_three:
  assumes "demoted c en (keepStylesBlock eis (demoteType ebt (clampDepth mx b)))"
    and "ATOMIC \<in> set ebt"
  shows "demoted c en b"
proof -
  have "UNSTYLED \<noteq> ATOMIC"
    by (simp add: UNSTYLED_def ATOMIC_def)
  with assms have "blockType b = ATOMIC"
    by (auto simp: demoted_def demoteType_def split: if_splits)
  with assms(1) getEntityAt_first_three [of eis ebt mx b] show ?thesis
    by (simp add: demoted_def shouldReset_def)
qed

lemma noDemotion_not_demoted:
  assumes "noDemotion hr ets s" and "(k, b) \<in> set (getBlockMap s)"
  shows "\<not> demoted (currentContent s)
             (if hr then map type ets @ [HORIZONTAL_RULE] else map type ets) b"
proof
  assume dem: "demoted (currentContent s)
                 (if hr then map type ets @ [HORIZONTAL_RULE] else map type ets) b"
  then have atomic: "blockType b = ATOMIC"
    by (simp add: demoted_def)
  show False
  proof (cases "characterList b")
    case Nil
    with dem show False
      by (auto simp: demoted_def shouldReset_def getEntityAt_def normaliseAtomic_def truthy_def
            Let_def split: if_splits)
  next
    case (Cons ch cs)
    from assms atomic Cons have
      "truthy (entity ch) \<longrightarrow>
         (case getEntity (currentContent s) (entity ch) of
            Inl e \<Rightarrow> True
          | Inr instance \<Rightarrow>
              entityType instance \<in>
                set (if hr then map type ets @ [HORIZONTAL_RULE] else map type ets))"
      unfolding noDemotion_def set_enabledEntityTypes by fastforce
    with dem Cons show False
      by (auto simp: demoted_def shouldReset_def getEntityAt_def normaliseAtomic_def Let_def
            split: sum.splits if_splits)
  qed
qed

lemma lone_empty_blocks:
  "case filterEditorState (setBlockMap emptyAtomicState (take 1 emptyAtomicBlocks)) 1 False []
          [] bugEntityTypes of
     Inl e \<Rightarrow> False | Inr t \<Rightarrow> getBlockMap t = emptyNormalised"
  by code_simp

lemma lone_empty_run:
  "filterEditorState (setBlockMap emptyAtomicState (take 1 emptyAtomicBlocks)) 1 False [] []
     bugEntityTypes = Inr (setBlockMap emptyAtomicState emptyNormalised)"
  using run_result [OF lone_empty_blocks,
      of "setBlockMap emptyAtomicState (take 1 emptyAtomicBlocks)"]
    entityMap_filterEditorState
  by simp

lemma lone_run:
  "filterEditorState (setBlockMap bugState loneBlocks) 1 False [] [] bugEntityTypes =
     Inr (setBlockMap bugState (take 1 bugTwice))"
  using run_result [OF lone_blocks, of "setBlockMap bugState loneBlocks"]
    entityMap_filterEditorState
  by simp

lemma lone_hypotheses:
  "distinct (map fst (getBlockMap (setBlockMap bugState loneBlocks)))"
  "charactersMatchText (setBlockMap bugState loneBlocks)"
  "noDemotion False bugEntityTypes (setBlockMap bugState loneBlocks)"
  by code_simp+

lemma lone_empty_atomic_blocks:
  "case resetAtomicBlocks (setBlockMap emptyAtomicState (take 1 emptyAtomicBlocks))
          (map type bugEntityTypes) of
     Inl e \<Rightarrow> False | Inr t \<Rightarrow> getBlockMap t = emptyNormalised"
  by code_simp

section \<open>The claims\<close>

subsection \<open>Idempotence\<close>

text \<open>
  C1. The claim is that running the pipeline twice with one configuration gives the
  snapshot that one run gives. On \<open>bugState\<close> it does not. In the first run
  \<^verbatim>\<open>resetAtomicBlocks\<close> normalises block \<open>a\<close>, then resets block \<open>b\<close> and merges the reset
  block into the block map it was given, which drops the normalised \<open>a\<close>: block \<open>a\<close>
  keeps its text \<open>ab\<close>. In the second run block \<open>b\<close> is no longer atomic, nothing is
  reset, and block \<open>a\<close> is normalised to one space.
\<close>

theorem idempotence_fails:
  "filterEditorState bugState 1 False [] [] bugEntityTypes = Inr (setBlockMap bugState bugOnce) \<and>
   filterEditorState (setBlockMap bugState bugOnce) 1 False [] [] bugEntityTypes =
     Inr (setBlockMap bugState bugTwice) \<and>
   setBlockMap bugState bugTwice \<noteq> setBlockMap bugState bugOnce"
proof -
  have "bugTwice \<noteq> bugOnce" by code_simp
  then have "getBlockMap (setBlockMap bugState bugTwice) \<noteq>
             getBlockMap (setBlockMap bugState bugOnce)"
    by simp
  then have "setBlockMap bugState bugTwice \<noteq> setBlockMap bugState bugOnce"
    by metis
  with bug_once bug_twice show ?thesis by blast
qed

subsection \<open>Atomic shape\<close>

text \<open>
  C2, as amended. Let the snapshot that comes in hold every block key once, have one
  character-metadata entry per text position in every block, and hold no atomic block
  whose first character carries an entity of a type outside the effective set. Then a
  snapshot that the pipeline returns is the one in which every block went through the
  five stages with the atomic stage normalising (\<open>pipelineBlock False\<close>): an atomic block
  whose text is not the placeholder gets the placeholder as its text and the first entry
  of its character list, if it has one, as its character list. Every atomic block of the
  result has the placeholder as its text and at most one character-metadata entry.
\<close>

theorem atomic_shape_amended:
  assumes d: "distinct (map fst (getBlockMap s))"
    and wf: "charactersMatchText s"
    and nd: "noDemotion enableHorizontalRule entityTypes s"
    and r: "filterEditorState s maxListNesting enableHorizontalRule blockTypes inlineStyles
              entityTypes = Inr s'"
  shows "s' = setBlockMap s
                (mapValues
                   (pipelineBlock False (currentContent s) maxListNesting
                      (map type blockTypes @ [UNSTYLED, ATOMIC]) (map type inlineStyles)
                      (if enableHorizontalRule then map type entityTypes @ [HORIZONTAL_RULE]
                       else map type entityTypes))
                   (getBlockMap s)) \<and>
         (\<forall>(k, block) \<in> set (getBlockMap s'). blockType block = ATOMIC \<longrightarrow>
            blockText block = '' '' \<and> length (characterList block) \<le> 1)"
proof -
  define c where "c = currentContent s"
  define ebt where "ebt = map type blockTypes @ [UNSTYLED, ATOMIC]"
  define eis where "eis = map type inlineStyles"
  define eet where "eet = (if enableHorizontalRule then map type entityTypes @ [HORIZONTAL_RULE]
                           else map type entityTypes)"
  have "\<not> (\<exists>x \<in> set (getBlockMap s).
              demoted c eet (keepStylesBlock eis (demoteType ebt (clampDepth maxListNesting (snd x)))))"
  proof
    assume "\<exists>x \<in> set (getBlockMap s).
              demoted c eet (keepStylesBlock eis (demoteType ebt (clampDepth maxListNesting (snd x))))"
    then obtain k b where kb: "(k, b) \<in> set (getBlockMap s)"
      and "demoted c eet (keepStylesBlock eis (demoteType ebt (clampDepth maxListNesting b)))"
      by auto
    then have "demoted c eet b"
      using demoted_first_three [of c eet eis ebt maxListNesting b] by (simp add: ebt_def)
    with noDemotion_not_demoted [OF nd kb] show False
      by (simp add: c_def eet_def)
  qed
  with filterEditorState_Inr_explicit [OF d r]
  have s': "s' = setBlockMap s
                   (mapValues (pipelineBlock False c maxListNesting ebt eis eet) (getBlockMap s))"
    unfolding c_def ebt_def eis_def eet_def by simp
  have shape: "blockText (pipelineBlock False c maxListNesting ebt eis eet b) = '' '' \<and>
               length (characterList (pipelineBlock False c maxListNesting ebt eis eet b)) \<le> 1"
    if kb: "(k, b) \<in> set (getBlockMap s)"
      and at: "blockType (pipelineBlock False c maxListNesting ebt eis eet b) = ATOMIC"
    for k b
  proof -
    have len: "length (characterList b) = length (blockText b)"
      using wf kb by (auto simp: charactersMatchText_def)
    define b3 where "b3 = keepStylesBlock eis (demoteType ebt (clampDepth maxListNesting b))"
    have len3: "length (characterList b3) = length (blockText b3)"
      using len by (simp add: b3_def keepStylesBlock_def demoteType_def clampDepth_def)
    have at3: "blockType b3 = ATOMIC"
      using at by (simp add: pipelineBlock_def atomicResult_def b3_def)
    have "blockText (normaliseAtomic b3) = '' '' \<and>
          length (characterList (normaliseAtomic b3)) \<le> 1"
      using len3 at3 by (cases "blockText b3 = '' ''") (simp_all add: normaliseAtomic_def)
    then show ?thesis
      by (simp add: pipelineBlock_def atomicResult_def b3_def clearEntities_def)
  qed
  have "\<forall>(k, block) \<in> set (getBlockMap s'). blockType block = ATOMIC \<longrightarrow>
          blockText block = '' '' \<and> length (characterList block) \<le> 1"
    unfolding s' getBlockMap_setBlockMap ball_mapValues
    using shape by (metis prod.collapse)
  with s' show ?thesis
    unfolding c_def ebt_def eis_def eet_def by blast
qed

text \<open>
  The amended statement at the document that holds the atomic image block with the text
  \<open>ab\<close> alone: the pipeline returns it with one space and one character-metadata entry.
\<close>

theorem atomic_shape_amended_witness:
  "distinct (map fst (getBlockMap (setBlockMap bugState loneBlocks))) \<and>
   charactersMatchText (setBlockMap bugState loneBlocks) \<and>
   noDemotion False bugEntityTypes (setBlockMap bugState loneBlocks) \<and>
   filterEditorState (setBlockMap bugState loneBlocks) 1 False [] [] bugEntityTypes =
     Inr (setBlockMap bugState (take 1 bugTwice)) \<and>
   atomicShape (setBlockMap bugState (take 1 bugTwice))"
proof -
  have "atomicShape (setBlockMap bugState (take 1 bugTwice))"
    by code_simp
  with atomic_shape_amended [OF lone_hypotheses lone_run] lone_hypotheses lone_run
  show ?thesis by blast
qed

text \<open>
  C2 as stated fails on a document that holds one atomic block with empty text and an
  empty character list: the pipeline returns the block with the placeholder as its text
  and with no character-metadata entry, since the first entry of an empty list does not
  exist.
\<close>

theorem atomic_shape_counterexample:
  "filterEditorState (setBlockMap emptyAtomicState (take 1 emptyAtomicBlocks)) 1 False [] []
     bugEntityTypes = Inr (setBlockMap emptyAtomicState emptyNormalised) \<and>
   \<not> atomicShape (setBlockMap emptyAtomicState emptyNormalised)"
proof -
  have "\<not> atomicShape (setBlockMap emptyAtomicState emptyNormalised)"
    by code_simp
  with lone_empty_run show ?thesis by blast
qed

subsection \<open>Depth bound\<close>

text \<open>
  C3. Over a block map that holds every key once, \<^verbatim>\<open>resetBlockDepth\<close> returns the snapshot
  in which every block whose depth is within \<open>maxListNesting\<close> is the block that came in,
  and every other block is the block that came in with its depth set to
  \<open>maxListNesting\<close> and every other field as it was. Every block of the result of that
  stage has a depth of at most \<open>maxListNesting\<close>, and so has every block of a snapshot
  that the full pipeline returns.
\<close>

theorem depth_bound:
  assumes "distinct (map fst (getBlockMap s))"
  shows "resetBlockDepth s maxListNesting =
           setBlockMap s
             (mapValues
                (\<lambda>block. if depth block \<le> maxListNesting then block
                          else block\<lparr>depth := maxListNesting\<rparr>)
                (getBlockMap s)) \<and>
         depthBound maxListNesting (resetBlockDepth s maxListNesting) \<and>
         (filterEditorState s maxListNesting enableHorizontalRule blockTypes inlineStyles
            entityTypes = Inr s' \<longrightarrow>
          depthBound maxListNesting s')"
proof (intro conjI impI)
  have "clampDepth maxListNesting =
          (\<lambda>block. if depth block \<le> maxListNesting then block
                    else block\<lparr>depth := maxListNesting\<rparr>)"
    by (auto simp: fun_eq_iff clampDepth_def)
  then show "resetBlockDepth s maxListNesting =
           setBlockMap s
             (mapValues
                (\<lambda>block. if depth block \<le> maxListNesting then block
                          else block\<lparr>depth := maxListNesting\<rparr>)
                (getBlockMap s))"
    using resetBlockDepth_clamp [OF assms, of maxListNesting] by simp
  show "depthBound maxListNesting (resetBlockDepth s maxListNesting)"
    by (auto simp: depthBound_def resetBlockDepth_clamp [OF assms] set_mapValues
          depth_clampDepth)
next
  assume "filterEditorState s maxListNesting enableHorizontalRule blockTypes inlineStyles
            entityTypes = Inr s'"
  from filterEditorState_Inr [OF assms this] show "depthBound maxListNesting s'"
    by (auto simp: depthBound_def set_mapValues depth_pipelineBlock)
qed

text \<open>
  The depth bound at the example document with a nesting limit of 1.
\<close>

theorem depth_bound_witness:
  "distinct (map fst (getBlockMap exampleState)) \<and>
   filterEditorState exampleState 1 False exampleBlockTypes exampleInlineStyles
     exampleEntityTypes = Inr exampleResult \<and>
   depthBound 1 (resetBlockDepth exampleState 1) \<and>
   depthBound 1 exampleResult"
  using depth_bound [OF example_distinct, of 1 False exampleBlockTypes exampleInlineStyles
      exampleEntityTypes exampleResult]
    example_distinct example_run
  by blast

subsection \<open>Type closure\<close>

text \<open>
  C4. With the configured block types extended by the unstyled and the atomic type,
  \<^verbatim>\<open>resetBlockType\<close> returns the snapshot in which every block whose type is in that set
  is the block that came in, and every other block is the block that came in with its
  type set to unstyled and its text, characters and depth as they were. Every block of
  the result of that stage, and every block of a snapshot that the full pipeline returns,
  has a type that is configured, unstyled or atomic.
\<close>

theorem type_closure:
  assumes "distinct (map fst (getBlockMap s))"
  shows "resetBlockType s (map type blockTypes @ [UNSTYLED, ATOMIC]) =
           setBlockMap s
             (mapValues
                (\<lambda>block. if blockType block \<in> set (map type blockTypes) \<union> {UNSTYLED, ATOMIC}
                          then block else block\<lparr>blockType := UNSTYLED\<rparr>)
                (getBlockMap s)) \<and>
         typeClosure blockTypes (resetBlockType s (map type blockTypes @ [UNSTYLED, ATOMIC])) \<and>
         (filterEditorState s maxListNesting enableHorizontalRule blockTypes inlineStyles
            entityTypes = Inr s' \<longrightarrow>
          typeClosure blockTypes s')"
proof (intro conjI impI)
  let ?en = "map type blockTypes @ [UNSTYLED, ATOMIC]"
  have "demoteType ?en =
          (\<lambda>block. if blockType block \<in> set (map type blockTypes) \<union> {UNSTYLED, ATOMIC}
                    then block else block\<lparr>blockType := UNSTYLED\<rparr>)"
    by (auto simp: fun_eq_iff demoteType_def)
  then show "resetBlockType s ?en =
           setBlockMap s
             (mapValues
                (\<lambda>block. if blockType block \<in> set (map type blockTypes) \<union> {UNSTYLED, ATOMIC}
                          then block else block\<lparr>blockType := UNSTYLED\<rparr>)
                (getBlockMap s))"
    using resetBlockType_demote [OF assms, of ?en] by simp
  have "blockType (demoteType ?en b) \<in> set (map type blockTypes) \<union> {UNSTYLED, ATOMIC}" for b
    using blockType_demoteType [of ?en b] by auto
  then show "typeClosure blockTypes (resetBlockType s ?en)"
    unfolding typeClosure_def resetBlockType_demote [OF assms] getBlockMap_setBlockMap
      ball_mapValues
    by blast
next
  let ?en = "map type blockTypes @ [UNSTYLED, ATOMIC]"
  assume "filterEditorState s maxListNesting enableHorizontalRule blockTypes inlineStyles
            entityTypes = Inr s'"
  from filterEditorState_Inr [OF assms this] obtain a where
    s': "getBlockMap s' =
           mapValues
             (pipelineBlock a (currentContent s) maxListNesting ?en (map type inlineStyles)
                (if enableHorizontalRule then map type entityTypes @ [HORIZONTAL_RULE]
                 else map type entityTypes))
             (getBlockMap s)"
    by auto
  have "blockType (pipelineBlock a c mx ?en eis eet b) \<in>
          set (map type blockTypes) \<union> {UNSTYLED, ATOMIC}" for a c mx eis eet b
    using blockType_pipelineBlock [of ?en a c mx eis eet b] by auto
  then show "typeClosure blockTypes s'"
    unfolding typeClosure_def s' ball_mapValues by blast
qed

text \<open>
  Type closure at the example document, where only list items are configured.
\<close>

theorem type_closure_witness:
  "distinct (map fst (getBlockMap exampleState)) \<and>
   filterEditorState exampleState 1 False exampleBlockTypes exampleInlineStyles
     exampleEntityTypes = Inr exampleResult \<and>
   typeClosure exampleBlockTypes
     (resetBlockType exampleState (map type exampleBlockTypes @ [UNSTYLED, ATOMIC])) \<and>
   typeClosure exampleBlockTypes exampleResult"
  using type_closure [OF example_distinct, of exampleBlockTypes 1 False exampleInlineStyles
      exampleEntityTypes exampleResult]
    example_distinct example_run
  by blast

subsection \<open>Style closure\<close>

text \<open>
  C5. \<^verbatim>\<open>filterInlineStyle\<close> returns the snapshot in which every character of every block
  keeps exactly those of its styles that are in the allowed list, in their order. Every
  character of the result of that stage, and every character of a snapshot that the full
  pipeline returns, has only allowed styles.
\<close>

theorem style_closure:
  assumes "distinct (map fst (getBlockMap s))"
  shows "filterInlineStyle s (map type inlineStyles) =
           setBlockMap s
             (mapValues
                (\<lambda>block. block\<lparr>characterList :=
                   map (\<lambda>char. char\<lparr>style :=
                          filter (\<lambda>t. t \<in> set (map type inlineStyles)) (style char)\<rparr>)
                     (characterList block)\<rparr>)
                (getBlockMap s)) \<and>
         styleClosure inlineStyles (filterInlineStyle s (map type inlineStyles)) \<and>
         (filterEditorState s maxListNesting enableHorizontalRule blockTypes inlineStyles
            entityTypes = Inr s' \<longrightarrow>
          styleClosure inlineStyles s')"
proof (intro conjI impI)
  let ?en = "map type inlineStyles"
  have "keepStylesBlock ?en =
          (\<lambda>block. block\<lparr>characterList :=
                   map (\<lambda>char. char\<lparr>style := filter (\<lambda>t. t \<in> set ?en) (style char)\<rparr>)
                     (characterList block)\<rparr>)"
    by (simp add: fun_eq_iff keepStylesBlock_def keepStyles_def [abs_def])
  then show "filterInlineStyle s ?en =
           setBlockMap s
             (mapValues
                (\<lambda>block. block\<lparr>characterList :=
                   map (\<lambda>char. char\<lparr>style := filter (\<lambda>t. t \<in> set ?en) (style char)\<rparr>)
                     (characterList block)\<rparr>)
                (getBlockMap s))"
    using filterInlineStyle_eq [OF assms, of ?en] by simp
  have "\<forall>char \<in> set (characterList (keepStylesBlock ?en b)).
          set (style char) \<subseteq> set ?en" for b
    using style_keepStyles [of ?en] by (auto simp: keepStylesBlock_def)
  then show "styleClosure inlineStyles (filterInlineStyle s ?en)"
    unfolding styleClosure_def filterInlineStyle_eq [OF assms] getBlockMap_setBlockMap
      ball_mapValues
    by blast
next
  assume "filterEditorState s maxListNesting enableHorizontalRule blockTypes inlineStyles
            entityTypes = Inr s'"
  from filterEditorState_Inr [OF assms this] obtain a where
    s': "getBlockMap s' =
           mapValues
             (pipelineBlock a (currentContent s) maxListNesting
                (map type blockTypes @ [UNSTYLED, ATOMIC]) (map type inlineStyles)
                (if enableHorizontalRule then map type entityTypes @ [HORIZONTAL_RULE]
                 else map type entityTypes))
             (getBlockMap s)"
    by auto
  show "styleClosure inlineStyles s'"
    unfolding styleClosure_def s' ball_mapValues
    using styles_pipelineBlock by blast
qed

text \<open>
  Style closure at the example document, where only bold is allowed.
\<close>

theorem style_closure_witness:
  "distinct (map fst (getBlockMap exampleState)) \<and>
   filterEditorState exampleState 1 False exampleBlockTypes exampleInlineStyles
     exampleEntityTypes = Inr exampleResult \<and>
   styleClosure exampleInlineStyles
     (filterInlineStyle exampleState (map type exampleInlineStyles)) \<and>
   styleClosure exampleInlineStyles exampleResult"
  using style_closure [OF example_distinct, of exampleInlineStyles 1 False exampleBlockTypes
      exampleEntityTypes exampleResult]
    example_distinct example_run
  by blast

subsection \<open>Entity closure\<close>

text \<open>
  C6. An entity reference is non-empty when the key is truthy, which is what the code
  tests. If \<^verbatim>\<open>filterEntityType\<close> returns, it returns the snapshot in which every character
  went through \<open>clearEntity\<close>: a reference to an entity of a type that is not enabled is
  set to none, and every reference that is left is registered and has an enabled type.
  In a snapshot that the full pipeline returns, every character that carries a reference
  references a registered entity whose type is in the effective set: the configured
  entity types, with the horizontal-rule type added exactly when the flag is set.
\<close>

theorem entity_closure:
  assumes "distinct (map fst (getBlockMap s))"
  shows "(filterEntityType s enabledTypes = Inr t \<longrightarrow>
            t = setBlockMap s
                  (mapValues (clearEntities (currentContent s) enabledTypes) (getBlockMap s)) \<and>
            (\<forall>(k, block) \<in> set (getBlockMap t). \<forall>char \<in> set (characterList block).
               truthy (entity char) \<longrightarrow>
               (case getEntity (currentContent t) (entity char) of
                  Inl e \<Rightarrow> False
                | Inr instance \<Rightarrow> entityType instance \<in> set enabledTypes))) \<and>
         (filterEditorState s maxListNesting enableHorizontalRule blockTypes inlineStyles
            entityTypes = Inr s' \<longrightarrow>
          entityClosure enableHorizontalRule entityTypes s')"
proof (intro conjI impI)
  assume r: "filterEntityType s enabledTypes = Inr t"
  from filterEntityType_eq(1) [OF assms r]
  show "t = setBlockMap s
              (mapValues (clearEntities (currentContent s) enabledTypes) (getBlockMap s))" .
  show "\<forall>(k, block) \<in> set (getBlockMap t). \<forall>char \<in> set (characterList block).
          truthy (entity char) \<longrightarrow>
          (case getEntity (currentContent t) (entity char) of
             Inl e \<Rightarrow> False
           | Inr instance \<Rightarrow> entityType instance \<in> set enabledTypes)"
    using filterEntityType_closed [OF assms r]
    by (fastforce split: sum.splits)
next
  assume "filterEditorState s maxListNesting enableHorizontalRule blockTypes inlineStyles
            entityTypes = Inr s'"
  from filterEditorState_last [OF assms this] obtain s4 where
    d4: "distinct (map fst (getBlockMap s4))"
    and 5: "filterEntityType s4
              (if enableHorizontalRule then map type entityTypes @ [HORIZONTAL_RULE]
               else map type entityTypes) = Inr s'"
    by blast
  show "entityClosure enableHorizontalRule entityTypes s'"
    unfolding entityClosure_def
    using filterEntityType_closed [OF d4 5]
    unfolding set_enabledEntityTypes
    by (fastforce split: sum.splits)
qed

text \<open>
  Entity closure at the example document, where images and links are enabled and
  horizontal rules are not.
\<close>

theorem entity_closure_witness:
  "distinct (map fst (getBlockMap exampleState)) \<and>
   filterEntityType exampleState (map type exampleEntityTypes) =
     Inr (setBlockMap exampleState exampleEntityFiltered) \<and>
   filterEditorState exampleState 1 False exampleBlockTypes exampleInlineStyles
     exampleEntityTypes = Inr exampleResult \<and>
   entityClosure False exampleEntityTypes exampleResult"
  using entity_closure [OF example_distinct, of "map type exampleEntityTypes"
      "setBlockMap exampleState exampleEntityFiltered" 1 False exampleBlockTypes
      exampleInlineStyles exampleEntityTypes exampleResult]
    example_distinct example_filterEntityType example_run
  by blast

subsection \<open>Image containment\<close>

text \<open>
  C7. Whatever the list of enabled types is, also when it holds the image type, a
  snapshot that \<^verbatim>\<open>filterEntityType\<close> returns has no character with a reference to an image
  entity in a block that is not atomic, and it has the keys, types, texts, depths and
  character styles of the snapshot that came in. A snapshot that the full pipeline
  returns has no such character either.
\<close>

theorem image_containment:
  assumes "distinct (map fst (getBlockMap s))"
  shows "(filterEntityType s enabledTypes = Inr t \<longrightarrow>
            imageContainment t \<and>
            map (\<lambda>(k, block). (k, blockType block, blockText block, depth block,
                               map style (characterList block))) (getBlockMap t) =
            map (\<lambda>(k, block). (k, blockType block, blockText block, depth block,
                               map style (characterList block))) (getBlockMap s)) \<and>
         (filterEditorState s maxListNesting enableHorizontalRule blockTypes inlineStyles
            entityTypes = Inr s' \<longrightarrow>
          imageContainment s')"
proof -
  have contained: "imageContainment t'"
    if d: "distinct (map fst (getBlockMap s0))" and r: "filterEntityType s0 en = Inr t'"
    for s0 en t'
    unfolding imageContainment_def
    using filterEntityType_closed [OF d r]
    by (fastforce split: sum.splits)
  show ?thesis
  proof (intro conjI impI)
    assume r: "filterEntityType s enabledTypes = Inr t"
    from contained [OF assms r] show "imageContainment t" .
    show "map (\<lambda>(k, block). (k, blockType block, blockText block, depth block,
                               map style (characterList block))) (getBlockMap t) =
          map (\<lambda>(k, block). (k, blockType block, blockText block, depth block,
                               map style (characterList block))) (getBlockMap s)"
      unfolding filterEntityType_eq(1) [OF assms r] getBlockMap_setBlockMap
      by (simp add: mapValues_def split_beta)
  next
    assume "filterEditorState s maxListNesting enableHorizontalRule blockTypes inlineStyles
              entityTypes = Inr s'"
    from filterEditorState_last [OF assms this] obtain s4 where
      "distinct (map fst (getBlockMap s4))"
      and "filterEntityType s4
             (if enableHorizontalRule then map type entityTypes @ [HORIZONTAL_RULE]
              else map type entityTypes) = Inr s'"
      by blast
    then show "imageContainment s'"
      by (rule contained)
  qed
qed

text \<open>
  Image containment at the example document: images are enabled, and the image that the
  list item carries is cleared.
\<close>

theorem image_containment_witness:
  "distinct (map fst (getBlockMap exampleState)) \<and>
   filterEntityType exampleState (map type exampleEntityTypes) =
     Inr (setBlockMap exampleState exampleEntityFiltered) \<and>
   filterEditorState exampleState 1 False exampleBlockTypes exampleInlineStyles
     exampleEntityTypes = Inr exampleResult \<and>
   imageContainment (setBlockMap exampleState exampleEntityFiltered) \<and>
   imageContainment exampleResult"
  using image_containment [OF example_distinct, of "map type exampleEntityTypes"
      "setBlockMap exampleState exampleEntityFiltered" 1 False exampleBlockTypes
      exampleInlineStyles exampleEntityTypes exampleResult]
    example_distinct example_filterEntityType example_run
  by blast

subsection \<open>Stability\<close>

text \<open>
  C8. If a snapshot holds every block key once and satisfies the depth bound, type
  closure, style closure, entity closure, image containment and the atomic shape (the
  text of every atomic block is the placeholder character, with one character-metadata
  entry) under a configuration, the pipeline returns it, and returns it as it is.
\<close>

theorem stability:
  assumes d: "distinct (map fst (getBlockMap s))"
    and depth: "depthBound maxListNesting s"
    and types: "typeClosure blockTypes s"
    and styles: "styleClosure inlineStyles s"
    and entities: "entityClosure enableHorizontalRule entityTypes s"
    and images: "imageContainment s"
    and atomic: "atomicShape s"
  shows "filterEditorState s maxListNesting enableHorizontalRule blockTypes inlineStyles
           entityTypes = Inr s"
proof -
  define c where "c = currentContent s"
  define ebt where "ebt = map type blockTypes @ [UNSTYLED, ATOMIC]"
  define eis where "eis = map type inlineStyles"
  define eet where "eet = (if enableHorizontalRule then map type entityTypes @ [HORIZONTAL_RULE]
                           else map type entityTypes)"
  from filterEditorState_defined [OF d entityClosure_resolved [OF entities]] obtain s' where
    r: "filterEditorState s maxListNesting enableHorizontalRule blockTypes inlineStyles
          entityTypes = Inr s'"
    by blast
  from filterEditorState_Inr [OF d r] obtain a where
    s': "s' = setBlockMap s
                (mapValues (pipelineBlock a c maxListNesting ebt eis eet) (getBlockMap s))"
    unfolding c_def ebt_def eis_def eet_def by blast
  have same: "pipelineBlock a c maxListNesting ebt eis eet b = b"
    if kb: "(k, b) \<in> set (getBlockMap s)" for k b
  proof -
    have 1: "clampDepth maxListNesting b = b"
      using depth kb by (auto simp: depthBound_def clampDepth_def)
    have 2: "demoteType ebt b = b"
      using types kb by (auto simp: typeClosure_def demoteType_def ebt_def)
    have "set (style ch) \<subseteq> set eis" if "ch \<in> set (characterList b)" for ch
      using styles kb that unfolding styleClosure_def eis_def by blast
    then have "map (keepStyles eis) (characterList b) = characterList b"
      by (intro map_idI keepStyles_id)
    then have 3: "keepStylesBlock eis b = b"
      by (simp add: keepStylesBlock_def)
    have closed: "\<forall>ch \<in> set (characterList b). truthy (entity ch) \<longrightarrow>
           (case getEntity c (entity ch) of
              Inl e \<Rightarrow> False
            | Inr instance \<Rightarrow> entityType instance \<in> set eet)"
      using entities kb
      unfolding entityClosure_def c_def eet_def set_enabledEntityTypes by blast
    have shape: "blockType b = ATOMIC \<longrightarrow> blockText b = '' ''"
      using atomic kb by (auto simp: atomicShape_def)
    have "normaliseAtomic b = b"
      using shape by (cases "blockType b = ATOMIC") (simp_all add: normaliseAtomic_def)
    with not_demoted [OF shape closed] have 4: "atomicResult a c eet b = b"
      by (simp add: atomicResult_def)
    have "clearEntity c eet (blockType b) ch = ch" if "ch \<in> set (characterList b)" for ch
      using closed images kb that
      by (intro clearEntity_same) (auto simp: imageContainment_def c_def)
    then have "map (clearEntity c eet (blockType b)) (characterList b) = characterList b"
      by (intro map_idI)
    then have 5: "clearEntities c eet b = b"
      by (simp add: clearEntities_def)
    show ?thesis
      by (simp add: pipelineBlock_def 1 2 3 4 5)
  qed
  have "mapValues (pipelineBlock a c maxListNesting ebt eis eet) (getBlockMap s) = getBlockMap s"
    by (rule mapValues_id) (use same in auto)
  with s' r show ?thesis by simp
qed

text \<open>
  Stability at the result of the example run, which satisfies all six properties.
\<close>

theorem stability_witness:
  "distinct (map fst (getBlockMap exampleResult)) \<and>
   depthBound 1 exampleResult \<and> typeClosure exampleBlockTypes exampleResult \<and>
   styleClosure exampleInlineStyles exampleResult \<and>
   entityClosure False exampleEntityTypes exampleResult \<and>
   imageContainment exampleResult \<and> atomicShape exampleResult \<and>
   filterEditorState exampleResult 1 False exampleBlockTypes exampleInlineStyles
     exampleEntityTypes = Inr exampleResult"
  using stability [OF example_closures(7) example_closures(1-6)] example_closures
  by blast

subsection \<open>Block keys\<close>

text \<open>
  C9. Over a block map that holds every key once, each of the five stages that returns,
  and the full pipeline when it returns, gives a block map with the keys of the block map
  that came in, in the same order.
\<close>

theorem keys_preserved:
  assumes "distinct (map fst (getBlockMap s))"
  shows "map fst (getBlockMap (resetBlockDepth s maxListNesting)) = map fst (getBlockMap s) \<and>
         map fst (getBlockMap (resetBlockType s enabledBlockTypes)) = map fst (getBlockMap s) \<and>
         map fst (getBlockMap (filterInlineStyle s enabledInlineStyles)) =
           map fst (getBlockMap s) \<and>
         (resetAtomicBlocks s enabledEntityTypes = Inr t4 \<longrightarrow>
            map fst (getBlockMap t4) = map fst (getBlockMap s)) \<and>
         (filterEntityType s enabledEntityTypes = Inr t5 \<longrightarrow>
            map fst (getBlockMap t5) = map fst (getBlockMap s)) \<and>
         (filterEditorState s maxListNesting enableHorizontalRule blockTypes inlineStyles
            entityTypes = Inr s' \<longrightarrow>
          map fst (getBlockMap s') = map fst (getBlockMap s))"
proof (intro conjI impI)
  show "map fst (getBlockMap (resetBlockDepth s maxListNesting)) = map fst (getBlockMap s)"
    by (simp add: resetBlockDepth_clamp [OF assms])
  show "map fst (getBlockMap (resetBlockType s enabledBlockTypes)) = map fst (getBlockMap s)"
    by (simp add: resetBlockType_demote [OF assms])
  show "map fst (getBlockMap (filterInlineStyle s enabledInlineStyles)) =
          map fst (getBlockMap s)"
    by (simp add: filterInlineStyle_eq [OF assms])
next
  assume "resetAtomicBlocks s enabledEntityTypes = Inr t4"
  from resetAtomicBlocks_eq [OF assms this]
  show "map fst (getBlockMap t4) = map fst (getBlockMap s)"
    by simp
next
  assume "filterEntityType s enabledEntityTypes = Inr t5"
  from filterEntityType_eq(1) [OF assms this]
  show "map fst (getBlockMap t5) = map fst (getBlockMap s)"
    by simp
next
  assume "filterEditorState s maxListNesting enableHorizontalRule blockTypes inlineStyles
            entityTypes = Inr s'"
  from filterEditorState_Inr [OF assms this]
  show "map fst (getBlockMap s') = map fst (getBlockMap s)"
    by auto
qed

text \<open>
  Key preservation at the example document, for the two stages that look entities up and
  for the pipeline.
\<close>

theorem keys_preserved_witness:
  "distinct (map fst (getBlockMap exampleState)) \<and>
   resetAtomicBlocks exampleState (map type exampleEntityTypes) =
     Inr (setBlockMap exampleState exampleAtomicReset) \<and>
   filterEntityType exampleState (map type exampleEntityTypes) =
     Inr (setBlockMap exampleState exampleEntityFiltered) \<and>
   filterEditorState exampleState 1 False exampleBlockTypes exampleInlineStyles
     exampleEntityTypes = Inr exampleResult \<and>
   map fst (getBlockMap exampleResult) = map fst (getBlockMap exampleState)"
  using keys_preserved [OF example_distinct, of 1 "[]" "[]" "map type exampleEntityTypes"
      "setBlockMap exampleState exampleAtomicReset"
      "setBlockMap exampleState exampleEntityFiltered" False exampleBlockTypes
      exampleInlineStyles exampleEntityTypes exampleResult]
    example_distinct example_resetAtomicBlocks example_filterEntityType example_run
  by blast

subsection \<open>Atomic blocks with an empty character list\<close>

text \<open>
  C10. The claim is that \<^verbatim>\<open>resetAtomicBlocks\<close> returns every atomic block that has an empty
  character list with the placeholder as its text and an empty character list. In
  \<open>emptyAtomicBlocks\<close> the block \<open>a\<close> is such a block, and block \<open>b\<close> is an atomic block
  with an embed, which is not enabled: \<^verbatim>\<open>resetAtomicBlocks\<close> resets \<open>b\<close> and returns \<open>a\<close>
  with its empty text. For block \<open>a\<close> alone it returns the placeholder and the empty
  character list.
\<close>

theorem empty_atomic_not_normalised:
  "resetAtomicBlocks emptyAtomicState (map type bugEntityTypes) =
     Inr (setBlockMap emptyAtomicState emptyAtomicResult) \<and>
   map_of emptyAtomicResult ''a'' =
     Some \<lparr>blockType = ATOMIC, blockText = '''', characterList = [], depth = 0\<rparr> \<and>
   resetAtomicBlocks (setBlockMap emptyAtomicState (take 1 emptyAtomicBlocks))
     (map type bugEntityTypes) = Inr (setBlockMap emptyAtomicState emptyNormalised) \<and>
   map_of emptyNormalised ''a'' =
     Some \<lparr>blockType = ATOMIC, blockText = '' '', characterList = [], depth = 0\<rparr>"
proof -
  have 1: "resetAtomicBlocks emptyAtomicState (map type bugEntityTypes) =
     Inr (setBlockMap emptyAtomicState emptyAtomicResult)"
    by (rule run_result [OF empty_atomic_blocks]) (rule entityMap_resetAtomicBlocks)
  have 2: "map_of emptyAtomicResult ''a'' =
     Some \<lparr>blockType = ATOMIC, blockText = '''', characterList = [], depth = 0\<rparr>"
    by code_simp
  have 3: "resetAtomicBlocks (setBlockMap emptyAtomicState (take 1 emptyAtomicBlocks))
     (map type bugEntityTypes) = Inr (setBlockMap emptyAtomicState emptyNormalised)"
    using run_result [OF lone_empty_atomic_blocks,
        of "setBlockMap emptyAtomicState (take 1 emptyAtomicBlocks)"]
      entityMap_resetAtomicBlocks
    by simp
  have 4: "map_of emptyNormalised ''a'' =
     Some \<lparr>blockType = ATOMIC, blockText = '' '', characterList = [], depth = 0\<rparr>"
    by code_simp
  from 1 2 3 4 show ?thesis by blast
qed

end
